theory Spec2Isabelle
  imports Main
begin

section \<open>Metrical symbols and Python errors\<close>

text \<open>
  \<^verbatim>\<open>LONG = 'L'\<close>, \<^verbatim>\<open>SHORT = 'S'\<close>, \<^verbatim>\<open>UNKNOWN = 'X'\<close> of \<^verbatim>\<open>greek_scansion.py\<close>.
  A raw meter is the list that \<^verbatim>\<open>scan_line\<close> returns; a metron is a Python string
  built from its elements, so both are lists of symbols.
\<close>

datatype symbol = LONG | SHORT | UNKNOWN

type_synonym meter_string = "symbol list"

text \<open>The exceptions that the two modules can raise.\<close>

datatype error = IndexError | TypeError

section \<open>Characters and the platform\<close>

text \<open>
  A Python string is a sequence of Unicode code points; a character is modelled by its
  code point. The Greek letters of the tables of \<^verbatim>\<open>greek_scansion.py\<close>, by name.
\<close>

type_synonym uchar = nat
type_synonym ustring = "uchar list"

abbreviation (input) alpha :: uchar where "alpha \<equiv> 945"
abbreviation (input) beta :: uchar where "beta \<equiv> 946"
abbreviation (input) gamma :: uchar where "gamma \<equiv> 947"
abbreviation (input) delta :: uchar where "delta \<equiv> 948"
abbreviation (input) epsilon :: uchar where "epsilon \<equiv> 949"
abbreviation (input) zeta :: uchar where "zeta \<equiv> 950"
abbreviation (input) eta :: uchar where "eta \<equiv> 951"
abbreviation (input) theta :: uchar where "theta \<equiv> 952"
abbreviation (input) iota :: uchar where "iota \<equiv> 953"
abbreviation (input) kappa :: uchar where "kappa \<equiv> 954"
abbreviation (input) lambda :: uchar where "lambda \<equiv> 955"
abbreviation (input) mu :: uchar where "mu \<equiv> 956"
abbreviation (input) nu :: uchar where "nu \<equiv> 957"
abbreviation (input) xi :: uchar where "xi \<equiv> 958"
abbreviation (input) omicron :: uchar where "omicron \<equiv> 959"
abbreviation (input) pi_letter :: uchar where "pi_letter \<equiv> 960"
abbreviation (input) rho :: uchar where "rho \<equiv> 961"
abbreviation (input) final_sigma :: uchar where "final_sigma \<equiv> 962"
abbreviation (input) sigma :: uchar where "sigma \<equiv> 963"
abbreviation (input) tau :: uchar where "tau \<equiv> 964"
abbreviation (input) upsilon :: uchar where "upsilon \<equiv> 965"
abbreviation (input) phi :: uchar where "phi \<equiv> 966"
abbreviation (input) chi :: uchar where "chi \<equiv> 967"
abbreviation (input) psi :: uchar where "psi \<equiv> 968"
abbreviation (input) omega :: uchar where "omega \<equiv> 969"
abbreviation (input) lunate_sigma :: uchar where "lunate_sigma \<equiv> 1010"

text \<open>
  What the source takes from outside the repository: \<^verbatim>\<open>unicodedata.normalize('NFD', _)\<close>,
  \<^verbatim>\<open>str.lower\<close>, the classes \<^verbatim>\<open>\w\<close> and \<^verbatim>\<open>\s\<close> of \<^verbatim>\<open>re\<close> (\<^verbatim>\<open>str.strip\<close> removes the
  same whitespace), and \<^verbatim>\<open>syllabify\<close> of the library \<^verbatim>\<open>greek_accentuation\<close>. They are
  parameters of the model.
\<close>

record platform =
  normalize_NFD :: "ustring \<Rightarrow> ustring"
  lower :: "ustring \<Rightarrow> ustring"
  word_char :: "uchar \<Rightarrow> bool"
  whitespace :: "uchar \<Rightarrow> bool"
  syllabify :: "ustring \<Rightarrow> ustring list"

definition VOWELS :: "uchar list" where
  "VOWELS = [alpha, epsilon, eta, iota, omicron, upsilon, omega]"

definition LONG_VOWELS :: "uchar list" where
  "LONG_VOWELS = [eta, omega]"

definition SHORT_VOWELS :: "uchar list" where
  "SHORT_VOWELS = [epsilon, omicron]"

definition DIPHTHONGS :: "ustring list" where
  "DIPHTHONGS = [[alpha, iota], [epsilon, iota], [omicron, iota], [upsilon, iota],
                 [alpha, upsilon], [epsilon, upsilon], [omicron, upsilon], [eta, upsilon]]"

definition CONSONANTS :: "uchar list" where
  "CONSONANTS = [beta, gamma, delta, zeta, theta, kappa, lambda, mu, nu, xi,
                 pi_letter, rho, lunate_sigma, sigma, final_sigma, tau, phi, chi, psi]"

definition DOUBLE_CONS :: "uchar list" where
  "DOUBLE_CONS = [zeta, xi, psi]"

text \<open>
  Combining circumflex U+0302, macron U+0304, circumflex U+02C6, caret U+005E, iota
  subscript U+0345 and U+037A; the breve U+0306; the apostrophe U+02BC.
\<close>

definition LONG_MARKS :: "uchar list" where
  "LONG_MARKS = [770, 772, 710, 94, 837, 890]"

definition SHORT_MARK :: uchar where
  "SHORT_MARK = 774"

definition MUTE_LIQUID :: "ustring list" where
  "MUTE_LIQUID =
     [[theta, lambda], [theta, rho], [theta, mu], [theta, nu],
      [kappa, lambda], [kappa, rho], [kappa, mu], [kappa, nu],
      [pi_letter, lambda], [pi_letter, rho], [pi_letter, nu], [pi_letter, mu],
      [tau, lambda], [tau, rho], [tau, nu], [tau, mu],
      [phi, lambda], [phi, rho], [phi, nu], [phi, mu],
      [chi, lambda], [chi, rho], [chi, nu], [chi, mu],
      [beta, rho], [gamma, rho], [delta, rho]]"

definition APOSTROPHE :: uchar where
  "APOSTROPHE = 700"

text \<open>The sentinel \<^verbatim>\<open>'END'\<close> that \<^verbatim>\<open>scan_line\<close> passes for the last syllable.\<close>

definition END :: ustring where
  "END = [69, 78, 68]"

section \<open>The syllable normaliser\<close>

text \<open>
  The loop of \<^verbatim>\<open>strip_str\<close>: the first code point of the decomposition of each
  character. \<^verbatim>\<open>[0]\<close> raises IndexError on an empty string.
\<close>

fun strip_chars :: "platform \<Rightarrow> ustring \<Rightarrow> error + ustring" where
  "strip_chars E [] = Inr []"
| "strip_chars E (ch # rest) =
     (case normalize_NFD E [ch] of
        [] \<Rightarrow> Inl IndexError
      | bare_ch # _ \<Rightarrow>
          (case strip_chars E rest of
             Inl e \<Rightarrow> Inl e
           | Inr bare_str \<Rightarrow> Inr (bare_ch # bare_str)))"

definition strip_str :: "platform \<Rightarrow> ustring \<Rightarrow> error + ustring" where
  "strip_str E string =
     (case strip_chars E string of
        Inl e \<Rightarrow> Inl e
      | Inr bare_str \<Rightarrow> Inr (lower E bare_str))"

definition alnum_syl :: "platform \<Rightarrow> ustring \<Rightarrow> ustring" where
  "alnum_syl E string =
     (let text1 = filter (word_char E) string;
          text2 = filter (\<lambda>ch. ch \<noteq> APOSTROPHE) text1
      in lower E text2)"

section \<open>The length inference engine\<close>

text \<open>\<^verbatim>\<open>re.search\<close> of a literal: the literal occurs somewhere in the string.\<close>

fun contains :: "'a list \<Rightarrow> 'a list \<Rightarrow> bool" where
  "contains sub [] = (sub = [])"
| "contains sub (c # cs) = (take (length sub) (c # cs) = sub \<or> contains sub cs)"

definition natural_length :: "platform \<Rightarrow> ustring \<Rightarrow> error + symbol" where
  "natural_length E syl =
     (case strip_str E syl of
        Inl e \<Rightarrow> Inl e
      | Inr bare_syl \<Rightarrow>
          (let split_chs = normalize_NFD E syl in
           if list_ex (\<lambda>ch. ch \<in> set LONG_VOWELS) bare_syl then Inr LONG
           else if list_ex (\<lambda>d. contains d bare_syl) DIPHTHONGS then Inr LONG
           else if list_ex (\<lambda>ch. ch \<in> set LONG_MARKS) split_chs then Inr LONG
           else if list_ex (\<lambda>ch. ch \<in> set SHORT_VOWELS) bare_syl then Inr SHORT
           else if SHORT_MARK \<in> set split_chs then Inr SHORT
           else Inr UNKNOWN))"

text \<open>
  \<^verbatim>\<open>syl[-1]\<close> and \<^verbatim>\<open>next_syl[0]\<close> raise IndexError on an empty string, before and after
  the cleaning. The comparison with \<^verbatim>\<open>'END'\<close> reads \<^verbatim>\<open>next_syl\<close> after it has been
  reassigned to its cleaned form.
\<close>

definition positional_length :: "platform \<Rightarrow> ustring \<Rightarrow> ustring \<Rightarrow> error + symbol" where
  "positional_length E syl next_syl =
     (if syl = [] \<or> next_syl = [] then Inl IndexError
      else
        (let wordbreak = list_ex (whitespace E) [last syl, hd next_syl];
             syl' = alnum_syl E syl;
             next_syl' = alnum_syl E next_syl;
             consonant_cluster =
               rev (takeWhile (\<lambda>ch. ch \<in> set CONSONANTS) (rev syl'))
               @ takeWhile (\<lambda>ch. ch \<in> set CONSONANTS) next_syl'
         in case (if length consonant_cluster \<le> 1
                  then (if list_ex (\<lambda>ch. ch \<in> set DOUBLE_CONS) consonant_cluster
                        then Inr LONG else Inr SHORT)
                  else if consonant_cluster \<in> set MUTE_LIQUID
                  then (if wordbreak
                        then (if syl' = [] then Inl IndexError
                              else if last syl' \<in> set VOWELS then Inr SHORT
                              else Inr UNKNOWN)
                        else Inr UNKNOWN)
                  else Inr LONG) of
              Inl e \<Rightarrow> Inl e
            | Inr status \<Rightarrow>
                Inr (if next_syl' = END \<and> status = SHORT then UNKNOWN else status)))"

section \<open>The line scanner\<close>

text \<open>The body of the loop of \<^verbatim>\<open>scan_line\<close>, for one syllable and the one after it.\<close>

definition syllable_length :: "platform \<Rightarrow> ustring \<Rightarrow> ustring \<Rightarrow> error + symbol" where
  "syllable_length E syl next_syl =
     (case natural_length E syl of
        Inl e \<Rightarrow> Inl e
      | Inr current_length \<Rightarrow>
          if current_length \<noteq> LONG
          then (case positional_length E syl next_syl of
                  Inl e \<Rightarrow> Inl e
                | Inr pos_len \<Rightarrow>
                    Inr (if pos_len = LONG then LONG
                         else if current_length = SHORT then pos_len
                         else current_length))
          else Inr current_length)"

text \<open>The loop: the next syllable is \<^verbatim>\<open>'END'\<close> at the last index.\<close>

fun scan_syllables :: "platform \<Rightarrow> ustring list \<Rightarrow> error + meter_string" where
  "scan_syllables E [] = Inr []"
| "scan_syllables E (syl # rest) =
     (case syllable_length E syl (case rest of [] \<Rightarrow> END | next_syl # _ \<Rightarrow> next_syl) of
        Inl e \<Rightarrow> Inl e
      | Inr current_length \<Rightarrow>
          (case scan_syllables E rest of
             Inl e \<Rightarrow> Inl e
           | Inr meter \<Rightarrow> Inr (current_length # meter)))"

definition strip :: "platform \<Rightarrow> ustring \<Rightarrow> ustring" where
  "strip E line = rev (dropWhile (whitespace E) (rev (dropWhile (whitespace E) line)))"

definition scan_line :: "platform \<Rightarrow> ustring \<Rightarrow> error + meter_string" where
  "scan_line E line = scan_syllables E (syllabify E (strip E line))"

section \<open>The metron matcher (\<^verbatim>\<open>scan_trimeter.py\<close>)\<close>

text \<open>
  Both regular expressions have the shape \<^verbatim>\<open>^(?:a|b|..)(?:..)(?:..)(?:..)$\<close>: an anchored
  sequence of groups, each group a list of literal alternatives. A string matches when
  it splits into one alternative of each group, in order; the backtracking matcher of
  \<^verbatim>\<open>re\<close> finds such a split whenever there is one.
\<close>

type_synonym metron_regex = "meter_string list list"

definition IAMBIC_NONFINAL :: metron_regex where
  "IAMBIC_NONFINAL =
     [[[SHORT, SHORT], [LONG], [SHORT], [UNKNOWN], [SHORT, UNKNOWN], [UNKNOWN, SHORT]],
      [[SHORT, SHORT], [LONG], [UNKNOWN], [SHORT, UNKNOWN], [UNKNOWN, SHORT]],
      [[SHORT], [UNKNOWN]],
      [[SHORT, SHORT], [LONG], [UNKNOWN], [UNKNOWN, SHORT], [SHORT, UNKNOWN]]]"

definition IAMBIC_FINAL :: metron_regex where
  "IAMBIC_FINAL =
     [[[SHORT, SHORT], [LONG], [SHORT], [UNKNOWN], [SHORT, UNKNOWN], [UNKNOWN, SHORT]],
      [[SHORT, SHORT], [LONG], [UNKNOWN], [SHORT, UNKNOWN], [UNKNOWN, SHORT]],
      [[SHORT], [UNKNOWN]],
      [[LONG], [SHORT], [UNKNOWN]]]"

fun regex_match :: "metron_regex \<Rightarrow> meter_string \<Rightarrow> bool" where
  "regex_match [] s = (s = [])"
| "regex_match (alts # groups) s =
     list_ex (\<lambda>a. take (length a) s = a \<and> regex_match groups (drop (length a) s)) alts"

definition is_iambic_metron :: "meter_string \<Rightarrow> bool \<Rightarrow> bool" where
  "is_iambic_metron meter_string final =
     (let string = meter_string;
          regex = (if final then IAMBIC_FINAL else IAMBIC_NONFINAL)
      in if regex_match regex string then True else False)"

section \<open>The metron filler\<close>

text \<open>
  \<^verbatim>\<open>metron.replace('X', '.')\<close> compiled between \<^verbatim>\<open>^\<close> and \<^verbatim>\<open>$\<close>: an \<^verbatim>\<open>X\<close> of the observed
  metron matches any symbol of the candidate, every other symbol matches itself.
\<close>

definition wildcard_match :: "meter_string \<Rightarrow> meter_string \<Rightarrow> bool" where
  "wildcard_match metron x = list_all2 (\<lambda>p c. p = UNKNOWN \<or> p = c) metron x"

definition possible_metra :: "meter_string list" where
  "possible_metra =
     [[SHORT, SHORT, SHORT, SHORT, LONG],
      [SHORT, LONG, SHORT, SHORT, SHORT],
      [LONG, SHORT, SHORT, SHORT, LONG],
      [SHORT, SHORT, LONG, SHORT, LONG]]"

text \<open>
  \<^verbatim>\<open>matches[0]\<close> raises IndexError on an empty list, and \<^verbatim>\<open>filled[-1] = 'X'\<close> raises
  TypeError, a Python string having no item assignment. A length other than 4, 5 or 6
  leaves \<^verbatim>\<open>filled = ''\<close>.
\<close>

definition fill_metron :: "meter_string \<Rightarrow> bool \<Rightarrow> error + meter_string" where
  "fill_metron metron final =
     (let n = length metron in
      if n = 4 then Inr (hd metron # [LONG, SHORT, LONG])
      else if n = 6 then Inr (hd metron # [SHORT, SHORT, SHORT, SHORT, SHORT])
      else if n = 5 then
        (case filter (wildcard_match metron) possible_metra of
           [] \<Rightarrow> Inl IndexError
         | filled # _ \<Rightarrow>
             if final \<and> last metron = UNKNOWN
                \<and> drop (length filled - 3) filled \<noteq> [SHORT, SHORT, SHORT]
             then Inl TypeError
             else Inr filled)
      else Inr [])"

section \<open>The trimeter assembler: the two passes\<close>

text \<open>The local variables of the two loops.\<close>

record pass_state =
  trimeter :: "meter_string list"
  current :: meter_string
  is_last :: bool
  countdown :: int

text \<open>One iteration of the loop of \<^verbatim>\<open>scan_trimeter\<close> (back to front).\<close>

definition scan_trimeter_step :: "pass_state \<Rightarrow> symbol \<Rightarrow> error + pass_state" where
  "scan_trimeter_step st m =
     (let cur = m # current st in
      if length cur < 4 then Inr (st\<lparr>current := cur\<rparr>)
      else if is_iambic_metron cur (is_last st) \<and> (countdown st = 1 \<or> countdown st > 4)
      then (case fill_metron cur (is_last st) of
              Inl e \<Rightarrow> Inl e
            | Inr metron \<Rightarrow>
                Inr \<lparr>trimeter = metron # trimeter st, current = [],
                     is_last = False, countdown = countdown st - 1\<rparr>)
      else Inr (st\<lparr>current := cur\<rparr>))"

fun scan_trimeter_loop :: "pass_state \<Rightarrow> symbol list \<Rightarrow> error + pass_state" where
  "scan_trimeter_loop st [] = Inr st"
| "scan_trimeter_loop st (m # ms) =
     (case scan_trimeter_step st m of
        Inl e \<Rightarrow> Inl e
      | Inr st' \<Rightarrow> scan_trimeter_loop st' ms)"

text \<open>One iteration of the loop of \<^verbatim>\<open>scan_trimeter_2\<close> (front to back).\<close>

definition scan_trimeter_2_step :: "pass_state \<Rightarrow> symbol \<Rightarrow> error + pass_state" where
  "scan_trimeter_2_step st m =
     (let cur = current st @ [m] in
      if length cur < 4 then Inr (st\<lparr>current := cur\<rparr>)
      else
        (let last' = (if countdown st = 1 then True else is_last st) in
         if is_iambic_metron cur last' \<and> (countdown st = 1 \<or> countdown st > 4)
         then (case fill_metron cur last' of
                 Inl e \<Rightarrow> Inl e
               | Inr metron \<Rightarrow>
                   Inr \<lparr>trimeter = trimeter st @ [metron], current = [],
                        is_last = last', countdown = countdown st - 1\<rparr>)
         else Inr (st\<lparr>current := cur, is_last := last'\<rparr>)))"

fun scan_trimeter_2_loop :: "pass_state \<Rightarrow> symbol list \<Rightarrow> error + pass_state" where
  "scan_trimeter_2_loop st [] = Inr st"
| "scan_trimeter_2_loop st (m # ms) =
     (case scan_trimeter_2_step st m of
        Inl e \<Rightarrow> Inl e
      | Inr st' \<Rightarrow> scan_trimeter_2_loop st' ms)"

section \<open>The trimeter assembler: the public entry points\<close>

definition scan_trimeter_2 :: "platform \<Rightarrow> ustring \<Rightarrow> error + meter_string list" where
  "scan_trimeter_2 E line =
     (case scan_line E line of
        Inl e \<Rightarrow> Inl e
      | Inr raw_meter \<Rightarrow>
          (case scan_trimeter_2_loop
                  \<lparr>trimeter = [], current = [], is_last = False,
                   countdown = int (length raw_meter)\<rparr> raw_meter of
             Inl e \<Rightarrow> Inl e
           | Inr st \<Rightarrow> Inr (trimeter st)))"

text \<open>
  \<^verbatim>\<open>scan_trimeter\<close> returns the joined string, or prints \<^verbatim>\<open>FAILED TO SCAN LINE:\<close>, the
  line and the raw meter and returns \<^verbatim>\<open>None\<close>: the second constructor carries what was
  printed.
\<close>

datatype trimeter_result = Scansion meter_string | Failed_To_Scan ustring meter_string

definition scan_trimeter :: "platform \<Rightarrow> ustring \<Rightarrow> error + trimeter_result" where
  "scan_trimeter E line =
     (case scan_line E line of
        Inl e \<Rightarrow> Inl e
      | Inr raw_meter \<Rightarrow>
          (case scan_trimeter_loop
                  \<lparr>trimeter = [], current = [], is_last = True,
                   countdown = int (length raw_meter)\<rparr> (rev raw_meter) of
             Inl e \<Rightarrow> Inl e
           | Inr st \<Rightarrow>
               if length (trimeter st) = 3 then Inr (Scansion (concat (trimeter st)))
               else (case scan_trimeter_2 E line of
                       Inl e \<Rightarrow> Inl e
                     | Inr trimeter2 \<Rightarrow>
                         if length trimeter2 = 3 then Inr (Scansion (concat trimeter2))
                         else Inr (Failed_To_Scan line raw_meter))))"

section \<open>Invariants of the two passes\<close>

text \<open>
  The forward pass over a raw meter of \<open>n\<close> symbols, with \<open>todo\<close> symbols still to read:
  the flag is unset, \<^verbatim>\<open>countdown\<close> is \<open>n\<close> less the number of metra formed, and every metron
  formed has used at least four symbols.
\<close>

definition forward_inv :: "nat \<Rightarrow> nat \<Rightarrow> pass_state \<Rightarrow> bool" where
  "forward_inv n todo st =
     (\<not> is_last st
      \<and> countdown st = int n - int (length (trimeter st))
      \<and> 4 * length (trimeter st) + length (current st) + todo \<le> n)"

text \<open>The lengths for which \<^verbatim>\<open>fill_metron\<close> has a branch.\<close>

definition metron_length_ok :: "meter_string \<Rightarrow> bool" where
  "metron_length_ok m = (length m = 4 \<or> length m = 5 \<or> length m = 6)"

text \<open>
  The backward pass: the metra formed have such a length, and while the acceptance test
  on \<^verbatim>\<open>countdown\<close> holds, the last six symbols of \<^verbatim>\<open>current\<close> were not a metron. The
  forward pass: the same for the first four, five and six symbols of \<^verbatim>\<open>current\<close>.
\<close>

definition backward_inv :: "pass_state \<Rightarrow> bool" where
  "backward_inv st =
     (list_all metron_length_ok (trimeter st)
      \<and> ((countdown st = 1 \<or> countdown st > 4) \<and> 6 \<le> length (current st)
           \<longrightarrow> \<not> is_iambic_metron (drop (length (current st) - 6) (current st)) (is_last st)))"

definition forward_len_inv :: "pass_state \<Rightarrow> bool" where
  "forward_len_inv st =
     (list_all metron_length_ok (trimeter st)
      \<and> ((countdown st = 1 \<or> countdown st > 4)
           \<longrightarrow> (\<forall>k\<in>{4, 5, 6}. k \<le> length (current st)
                 \<longrightarrow> \<not> is_iambic_metron (take k (current st))
                        (countdown st = 1 \<or> is_last st))))"

text \<open>
  A filled metron with the string and the flag it was filled from: a string that the
  matcher accepts under the flag, of 4, 5 or 6 symbols, and the value of \<^verbatim>\<open>fill_metron\<close>
  for it, of the same length. The symbols that the backward pass has read are, in line
  order, \<^verbatim>\<open>current\<close> followed by the strings of its metra; those that the forward pass has
  read are the strings of its metra followed by \<^verbatim>\<open>current\<close>.
\<close>

definition filled_from :: "meter_string \<times> bool \<Rightarrow> meter_string \<Rightarrow> bool" where
  "filled_from cf m =
     (is_iambic_metron (fst cf) (snd cf) \<and> fill_metron (fst cf) (snd cf) = Inr m
      \<and> metron_length_ok (fst cf) \<and> length m = length (fst cf))"

definition backward_trace ::
  "symbol list \<Rightarrow> pass_state \<Rightarrow> (meter_string \<times> bool) list \<Rightarrow> bool" where
  "backward_trace seen st cands =
     (list_all2 filled_from cands (trimeter st)
      \<and> rev seen = current st @ concat (map fst cands))"

definition forward_trace ::
  "symbol list \<Rightarrow> pass_state \<Rightarrow> (meter_string \<times> bool) list \<Rightarrow> bool" where
  "forward_trace seen st cands =
     (list_all2 filled_from cands (trimeter st)
      \<and> seen = concat (map fst cands) @ current st)"

section \<open>A platform for the examples\<close>

text \<open>
  On ASCII text and on the unaccented lower-case Greek letters, canonical decomposition
  changes nothing, \<^verbatim>\<open>lower\<close> maps \<^verbatim>\<open>A\<close>..\<^verbatim>\<open>Z\<close> to \<^verbatim>\<open>a\<close>..\<^verbatim>\<open>z\<close>, \<^verbatim>\<open>\w\<close> holds of the
  letters, the digits and the underscore, and \<^verbatim>\<open>\s\<close> of the six ASCII whitespace
  characters. The examples use only such text. The syllables that the syllabifier
  returns for the line of an example are given with the example.
\<close>

definition ascii_lower :: "ustring \<Rightarrow> ustring" where
  "ascii_lower s = map (\<lambda>c. if 65 \<le> c \<and> c \<le> 90 then c + 32 else c) s"

definition plain_word_char :: "uchar \<Rightarrow> bool" where
  "plain_word_char c =
     ((48 \<le> c \<and> c \<le> 57) \<or> (65 \<le> c \<and> c \<le> 90) \<or> c = 95 \<or> (97 \<le> c \<and> c \<le> 122)
      \<or> (945 \<le> c \<and> c \<le> 969) \<or> c = 1010)"

definition plain_platform :: "ustring list \<Rightarrow> platform" where
  "plain_platform syls =
     \<lparr>normalize_NFD = (\<lambda>s. s), lower = ascii_lower, word_char = plain_word_char,
      whitespace = (\<lambda>c. c \<in> set [9, 10, 11, 12, 13, 32]), syllabify = (\<lambda>line. syls)\<rparr>"

text \<open>
  The lines of the examples, as the syllables the syllabifier returns for them (the line
  is their concatenation). With omicron, lambda-epsilon, gamma-omega and tau-alpha:
  a line of thirteen syllables, a line of five, and a line of thirteen that opens with a
  dactyl.
\<close>

definition line_13 :: "ustring list" where
  "line_13 =
     [[omicron], [lambda, epsilon], [gamma, omega], [lambda, epsilon], [gamma, omega],
      [lambda, epsilon], [gamma, omega], [lambda, epsilon], [gamma, omega],
      [lambda, epsilon], [gamma, omega], [lambda, epsilon], [gamma, omega]]"

definition line_5 :: "ustring list" where
  "line_5 =
     [[lambda, epsilon], [lambda, epsilon], [lambda, epsilon], [lambda, epsilon],
      [tau, alpha]]"

definition line_dactyl :: "ustring list" where
  "line_dactyl =
     [[gamma, omega], [lambda, epsilon], [lambda, epsilon], [lambda, epsilon], [gamma, omega],
      [lambda, epsilon], [gamma, omega], [lambda, epsilon], [gamma, omega],
      [lambda, epsilon], [gamma, omega], [lambda, epsilon], [gamma, omega]]"

text \<open>Tau-alpha, pi-epsilon, tau-rho-omega: a line of three syllables.\<close>

definition line_mute :: "ustring list" where
  "line_mute = [[tau, alpha], [pi_letter, epsilon], [tau, rho, omega]]"

text \<open>
  The combination rule as the specification words it: a naturally short syllable stays
  short, a naturally unknown one takes the positional result. For comparison with
  \<^verbatim>\<open>scan_line\<close>.
\<close>

definition claimed_combination :: "symbol \<Rightarrow> symbol \<Rightarrow> symbol" where
  "claimed_combination natural positional =
     (if natural = LONG then LONG
      else if positional = LONG then LONG
      else if natural = SHORT then SHORT
      else positional)"

section \<open>The example syllables, evaluated\<close>

lemma syllabify_plain: "syllabify (plain_platform syls) line = syls"
  by (simp add: plain_platform_def)

lemma whitespace_plain:
  "whitespace (plain_platform syls) c = (c \<in> set [9, 10, 11, 12, 13, 32])"
  by (simp add: plain_platform_def)

lemma natural_go: "natural_length (plain_platform syls) [gamma, omega] = Inr LONG"
  by (simp add: natural_length_def strip_str_def plain_platform_def ascii_lower_def
      LONG_VOWELS_def)

lemma natural_le: "natural_length (plain_platform syls) [lambda, epsilon] = Inr SHORT"
  by (simp add: natural_length_def strip_str_def plain_platform_def ascii_lower_def
      LONG_VOWELS_def DIPHTHONGS_def LONG_MARKS_def SHORT_VOWELS_def)

lemma natural_o: "natural_length (plain_platform syls) [omicron] = Inr SHORT"
  by (simp add: natural_length_def strip_str_def plain_platform_def ascii_lower_def
      LONG_VOWELS_def DIPHTHONGS_def LONG_MARKS_def SHORT_VOWELS_def)

lemma natural_ta: "natural_length (plain_platform syls) [tau, alpha] = Inr UNKNOWN"
  by (simp add: natural_length_def strip_str_def plain_platform_def ascii_lower_def
      LONG_VOWELS_def DIPHTHONGS_def LONG_MARKS_def SHORT_VOWELS_def SHORT_MARK_def)

lemma alnum_le: "alnum_syl (plain_platform syls) [lambda, epsilon] = [lambda, epsilon]"
  by (simp add: alnum_syl_def plain_platform_def plain_word_char_def ascii_lower_def
      APOSTROPHE_def)

lemma alnum_go: "alnum_syl (plain_platform syls) [gamma, omega] = [gamma, omega]"
  by (simp add: alnum_syl_def plain_platform_def plain_word_char_def ascii_lower_def
      APOSTROPHE_def)

lemma alnum_o: "alnum_syl (plain_platform syls) [omicron] = [omicron]"
  by (simp add: alnum_syl_def plain_platform_def plain_word_char_def ascii_lower_def
      APOSTROPHE_def)

lemma alnum_ta: "alnum_syl (plain_platform syls) [tau, alpha] = [tau, alpha]"
  by (simp add: alnum_syl_def plain_platform_def plain_word_char_def ascii_lower_def
      APOSTROPHE_def)

text \<open>The cleaning turns the sentinel \<^verbatim>\<open>'END'\<close> into \<^verbatim>\<open>'end'\<close>.\<close>

lemma alnum_END: "alnum_syl (plain_platform syls) END = [101, 110, 100]"
  by (simp add: alnum_syl_def plain_platform_def plain_word_char_def ascii_lower_def
      APOSTROPHE_def END_def)

lemma END_not_empty: "END \<noteq> []"
  by (simp add: END_def)

lemma positional_le_go:
  "positional_length (plain_platform syls) [lambda, epsilon] [gamma, omega] = Inr SHORT"
  by (simp add: positional_length_def alnum_le alnum_go whitespace_plain CONSONANTS_def
      DOUBLE_CONS_def END_def)

lemma positional_o_le:
  "positional_length (plain_platform syls) [omicron] [lambda, epsilon] = Inr SHORT"
  by (simp add: positional_length_def alnum_le alnum_o whitespace_plain CONSONANTS_def
      DOUBLE_CONS_def END_def)

lemma positional_le_le:
  "positional_length (plain_platform syls) [lambda, epsilon] [lambda, epsilon] = Inr SHORT"
  by (simp add: positional_length_def alnum_le whitespace_plain CONSONANTS_def
      DOUBLE_CONS_def END_def)

lemma positional_le_ta:
  "positional_length (plain_platform syls) [lambda, epsilon] [tau, alpha] = Inr SHORT"
  by (simp add: positional_length_def alnum_le alnum_ta whitespace_plain CONSONANTS_def
      DOUBLE_CONS_def END_def)

lemma positional_ta_END:
  "positional_length (plain_platform syls) [tau, alpha] END = Inr SHORT"
  by (simp add: positional_length_def alnum_ta alnum_END END_not_empty whitespace_plain
      CONSONANTS_def DOUBLE_CONS_def)
    (simp add: END_def)

lemma syllable_go: "syllable_length (plain_platform syls) [gamma, omega] next_syl = Inr LONG"
  by (simp add: syllable_length_def natural_go)

lemma syllable_le_go:
  "syllable_length (plain_platform syls) [lambda, epsilon] [gamma, omega] = Inr SHORT"
  by (simp add: syllable_length_def natural_le positional_le_go)

lemma syllable_o_le:
  "syllable_length (plain_platform syls) [omicron] [lambda, epsilon] = Inr SHORT"
  by (simp add: syllable_length_def natural_o positional_o_le)

lemma syllable_le_le:
  "syllable_length (plain_platform syls) [lambda, epsilon] [lambda, epsilon] = Inr SHORT"
  by (simp add: syllable_length_def natural_le positional_le_le)

lemma syllable_le_ta:
  "syllable_length (plain_platform syls) [lambda, epsilon] [tau, alpha] = Inr SHORT"
  by (simp add: syllable_length_def natural_le positional_le_ta)

lemma syllable_ta_END:
  "syllable_length (plain_platform syls) [tau, alpha] END = Inr UNKNOWN"
  by (simp add: syllable_length_def natural_ta positional_ta_END)

lemma natural_pe: "natural_length (plain_platform syls) [pi_letter, epsilon] = Inr SHORT"
  by (simp add: natural_length_def strip_str_def plain_platform_def ascii_lower_def
      LONG_VOWELS_def DIPHTHONGS_def LONG_MARKS_def SHORT_VOWELS_def)

lemma natural_tro: "natural_length (plain_platform syls) [tau, rho, omega] = Inr LONG"
  by (simp add: natural_length_def strip_str_def plain_platform_def ascii_lower_def
      LONG_VOWELS_def)

lemma alnum_pe: "alnum_syl (plain_platform syls) [pi_letter, epsilon] = [pi_letter, epsilon]"
  by (simp add: alnum_syl_def plain_platform_def plain_word_char_def ascii_lower_def
      APOSTROPHE_def)

lemma alnum_tro: "alnum_syl (plain_platform syls) [tau, rho, omega] = [tau, rho, omega]"
  by (simp add: alnum_syl_def plain_platform_def plain_word_char_def ascii_lower_def
      APOSTROPHE_def)

lemma positional_ta_pe:
  "positional_length (plain_platform syls) [tau, alpha] [pi_letter, epsilon] = Inr SHORT"
  by (simp add: positional_length_def alnum_ta alnum_pe whitespace_plain CONSONANTS_def
      DOUBLE_CONS_def END_def)

lemma positional_pe_tro:
  "positional_length (plain_platform syls) [pi_letter, epsilon] [tau, rho, omega] = Inr UNKNOWN"
  by (simp add: positional_length_def alnum_pe alnum_tro whitespace_plain CONSONANTS_def
      MUTE_LIQUID_def END_def)

lemma raw_line_mute:
  "scan_line (plain_platform line_mute) (concat line_mute) = Inr [UNKNOWN, UNKNOWN, LONG]"
  unfolding scan_line_def syllabify_plain
  by (simp add: line_mute_def syllable_length_def natural_ta natural_pe natural_tro
      positional_ta_pe positional_pe_tro)

lemma raw_line_13:
  "scan_line (plain_platform line_13) (concat line_13) =
     Inr [SHORT, SHORT, LONG, SHORT, LONG, SHORT, LONG, SHORT, LONG, SHORT, LONG, SHORT, LONG]"
  unfolding scan_line_def syllabify_plain
  by (simp add: line_13_def syllable_go syllable_le_go syllable_o_le)

lemma raw_line_5:
  "scan_line (plain_platform line_5) (concat line_5) =
     Inr [SHORT, SHORT, SHORT, SHORT, UNKNOWN]"
  unfolding scan_line_def syllabify_plain
  by (simp add: line_5_def syllable_le_le syllable_le_ta syllable_ta_END)

lemma raw_line_dactyl:
  "scan_line (plain_platform line_dactyl) (concat line_dactyl) =
     Inr [LONG, SHORT, SHORT, SHORT, LONG, SHORT, LONG, SHORT, LONG, SHORT, LONG, SHORT, LONG]"
  unfolding scan_line_def syllabify_plain
  by (simp add: line_dactyl_def syllable_go syllable_le_go syllable_le_le)

section \<open>The combination of natural and positional length\<close>

text \<open>
  C1, as stated, fails. In the line tau-alpha, pi-epsilon, tau-rho-omega the first
  syllable is unknown by nature and short by position, the second short by nature and
  unknown by position (tau-rho is a mute with a liquid). The rule of the claim makes
  both \<^verbatim>\<open>SHORT\<close>; \<^verbatim>\<open>scan_line\<close> makes both \<^verbatim>\<open>UNKNOWN\<close>.
\<close>

theorem scan_line_not_claimed_combination:
  "natural_length (plain_platform line_mute) [tau, alpha] = Inr UNKNOWN
   \<and> positional_length (plain_platform line_mute) [tau, alpha] [pi_letter, epsilon] = Inr SHORT
   \<and> claimed_combination UNKNOWN SHORT = SHORT
   \<and> natural_length (plain_platform line_mute) [pi_letter, epsilon] = Inr SHORT
   \<and> positional_length (plain_platform line_mute) [pi_letter, epsilon] [tau, rho, omega]
       = Inr UNKNOWN
   \<and> claimed_combination SHORT UNKNOWN = SHORT
   \<and> scan_line (plain_platform line_mute) (concat line_mute) = Inr [UNKNOWN, UNKNOWN, LONG]"
  by (simp add: natural_ta natural_pe positional_ta_pe positional_pe_tro raw_line_mute
      claimed_combination_def)

lemma syllable_length_cases:
  assumes "syllable_length E syl next_syl = Inr r"
  shows "\<exists>natural. natural_length E syl = Inr natural
           \<and> (if natural = LONG then r = LONG
              else \<exists>positional. positional_length E syl next_syl = Inr positional
                     \<and> r = (if positional = LONG then LONG
                            else if natural = SHORT then positional
                            else UNKNOWN))"
  using assms
  by (cases "natural_length E syl"; cases "positional_length E syl next_syl")
     (auto simp: syllable_length_def split: if_splits intro: symbol.exhaust)

lemma scan_syllables_nth:
  "scan_syllables E syls = Inr meter \<Longrightarrow>
     length meter = length syls
     \<and> (\<forall>i<length syls.
          syllable_length E (syls ! i) (if i = length syls - 1 then END else syls ! (i + 1))
            = Inr (meter ! i))"
proof (induction syls arbitrary: meter)
  case Nil
  then show ?case by simp
next
  case (Cons syl rest)
  from Cons.prems obtain len meter' where
    len: "syllable_length E syl (case rest of [] \<Rightarrow> END | next_syl # _ \<Rightarrow> next_syl) = Inr len"
    and rest: "scan_syllables E rest = Inr meter'"
    and meter: "meter = len # meter'"
    by (auto split: sum.splits)
  from Cons.IH [OF rest] have
    l: "length meter' = length rest"
    and ih: "\<And>j. j < length rest \<Longrightarrow>
          syllable_length E (rest ! j) (if j = length rest - 1 then END else rest ! (j + 1))
            = Inr (meter' ! j)"
    by auto
  show ?case
  proof (intro conjI allI impI)
    show "length meter = length (syl # rest)" using l meter by simp
  next
    fix i assume i: "i < length (syl # rest)"
    show "syllable_length E ((syl # rest) ! i)
            (if i = length (syl # rest) - 1 then END else (syl # rest) ! (i + 1))
          = Inr (meter ! i)"
    proof (cases i)
      case 0
      then show ?thesis using len meter by (cases rest) auto
    next
      case (Suc j)
      with i have j: "j < length rest" by simp
      then have "(Suc j = length rest) = (j = length rest - 1)" by auto
      with ih [OF j] Suc meter show ?thesis by (auto split: if_splits)
    qed
  qed
qed

text \<open>
  C1, amended. When \<^verbatim>\<open>scan_line\<close> returns a meter, it has one symbol for each syllable,
  and the symbol of a syllable is: \<^verbatim>\<open>LONG\<close> if the natural length is \<^verbatim>\<open>LONG\<close>; otherwise
  \<^verbatim>\<open>LONG\<close> if the positional length (against the next syllable, or \<^verbatim>\<open>'END'\<close> for the last
  one) is \<^verbatim>\<open>LONG\<close>; otherwise the positional length if the natural length is \<^verbatim>\<open>SHORT\<close>;
  otherwise \<^verbatim>\<open>UNKNOWN\<close>.
\<close>

theorem scan_line_combination:
  assumes "scan_line E line = Inr meter"
  shows "length meter = length (syllabify E (strip E line))
    \<and> (\<forall>i<length (syllabify E (strip E line)).
         \<exists>natural.
           natural_length E (syllabify E (strip E line) ! i) = Inr natural
           \<and> (if natural = LONG then meter ! i = LONG
              else \<exists>positional.
                     positional_length E (syllabify E (strip E line) ! i)
                       (if i = length (syllabify E (strip E line)) - 1 then END
                        else syllabify E (strip E line) ! (i + 1)) = Inr positional
                     \<and> meter ! i = (if positional = LONG then LONG
                                    else if natural = SHORT then positional
                                    else UNKNOWN)))"
proof -
  let ?syls = "syllabify E (strip E line)"
  from assms have s: "scan_syllables E ?syls = Inr meter"
    by (simp add: scan_line_def)
  from scan_syllables_nth [OF s] have l: "length meter = length ?syls"
    and n: "\<And>i. i < length ?syls \<Longrightarrow>
          syllable_length E (?syls ! i) (if i = length ?syls - 1 then END else ?syls ! (i + 1))
            = Inr (meter ! i)"
    by auto
  show ?thesis
    using l syllable_length_cases [OF n] by blast
qed

theorem scan_line_combination_witness:
  "scan_line (plain_platform line_mute) (concat line_mute) = Inr [UNKNOWN, UNKNOWN, LONG]
   \<and> length [UNKNOWN, UNKNOWN, LONG]
       = length (syllabify (plain_platform line_mute) (strip (plain_platform line_mute) (concat line_mute)))"
proof -
  have h: "scan_line (plain_platform line_mute) (concat line_mute) = Inr [UNKNOWN, UNKNOWN, LONG]"
    by (rule raw_line_mute)
  show ?thesis
    using h scan_line_combination [OF h] by blast
qed


section \<open>The natural length of eta and omega\<close>

text \<open>
  C9. Whenever the stripped form of a syllable (the value of \<^verbatim>\<open>strip_str\<close>) contains
  eta or omega, \<^verbatim>\<open>natural_length\<close> returns \<^verbatim>\<open>LONG\<close>, whatever else the syllable carries:
  the test for a long vowel comes first and decides.
\<close>

theorem natural_length_long_vowel:
  assumes "strip_str E syl = Inr bare_syl"
    and "eta \<in> set bare_syl \<or> omega \<in> set bare_syl"
  shows "natural_length E syl = Inr LONG"
proof -
  from assms(2) have "list_ex (\<lambda>ch. ch \<in> set LONG_VOWELS) bare_syl"
    by (auto simp: list_ex_iff LONG_VOWELS_def)
  with assms(1) show ?thesis
    by (simp add: natural_length_def)
qed

text \<open>Tau, eta and a combining breve: the breve does not make the syllable short.\<close>

theorem natural_length_long_vowel_witness:
  "strip_str (plain_platform []) [tau, eta, 774] = Inr [tau, eta, 774]
   \<and> natural_length (plain_platform []) [tau, eta, 774] = Inr LONG"
proof -
  have h: "strip_str (plain_platform []) [tau, eta, 774] = Inr [tau, eta, 774]"
    by (simp add: strip_str_def plain_platform_def ascii_lower_def)
  show ?thesis
    using h natural_length_long_vowel [OF h] by simp
qed

section \<open>The positional length at the end of the line\<close>

text \<open>
  C2. The claim is that \<^verbatim>\<open>positional_length(syl, 'END')\<close> never returns \<^verbatim>\<open>SHORT\<close>. The
  code compares \<^verbatim>\<open>next_syl\<close> with \<^verbatim>\<open>'END'\<close> after \<^verbatim>\<open>alnum_syl\<close> has lower-cased it, so
  the comparison fails and the remapping never happens: for tau-alpha at the end of a
  line the result is \<^verbatim>\<open>SHORT\<close>.
\<close>

theorem positional_length_END_returns_SHORT:
  "positional_length (plain_platform []) [tau, alpha] END = Inr SHORT"
  by (rule positional_ta_END)

section \<open>The metron filler on five symbols\<close>

text \<open>
  C7. The claim is that the restoration of the final anceps has no effect and the call
  returns the first candidate. On \<^verbatim>\<open>SSSSX\<close> with \<^verbatim>\<open>final=True\<close> the first candidate is
  \<^verbatim>\<open>SSSSL\<close>, which does not end in \<^verbatim>\<open>SSS\<close>, and the assignment to \<^verbatim>\<open>filled[-1]\<close> raises
  TypeError.
\<close>

theorem fill_metron_restore_raises:
  "fill_metron [SHORT, SHORT, SHORT, SHORT, UNKNOWN] True = Inl TypeError"
  by (simp add: fill_metron_def possible_metra_def wildcard_match_def)

text \<open>
  C6. The claim is that a five-symbol metron without \<^verbatim>\<open>X\<close> comes back unchanged and the
  call does not fail. \<^verbatim>\<open>LLSSS\<close> has no \<^verbatim>\<open>X\<close> and the non-final grammar accepts it (long
  anceps, long, short, resolved long), but it is none of the four candidates, and
  \<^verbatim>\<open>matches[0]\<close> raises IndexError.
\<close>

theorem fill_metron_LLSSS_raises:
  "is_iambic_metron [LONG, LONG, SHORT, SHORT, SHORT] False
   \<and> fill_metron [LONG, LONG, SHORT, SHORT, SHORT] False = Inl IndexError"
  by (simp add: is_iambic_metron_def IAMBIC_NONFINAL_def fill_metron_def possible_metra_def
      wildcard_match_def)

text \<open>
  The four candidates themselves come back unchanged, with either value of \<^verbatim>\<open>final\<close>:
  each is the only candidate it matches.
\<close>

lemma fill_metron_candidate_unchanged:
  assumes "metron \<in> set possible_metra"
  shows "filter (wildcard_match metron) possible_metra = [metron]
         \<and> fill_metron metron final = Inr metron"
  using assms by (auto simp: possible_metra_def fill_metron_def wildcard_match_def)

section \<open>Errors that escape the assembler\<close>

lemma loop_line_5:
  "scan_trimeter_loop \<lparr>trimeter = [], current = [], is_last = True, countdown = 5\<rparr>
     (rev [SHORT, SHORT, SHORT, SHORT, UNKNOWN]) = Inl TypeError"
  by code_simp

text \<open>
  C3. The claim is that no exception escapes \<^verbatim>\<open>scan_trimeter\<close>. The raw meter of the
  line of five syllables is \<^verbatim>\<open>SSSSX\<close>; the backward pass hands it to \<^verbatim>\<open>fill_metron\<close> as
  the final metron, and the TypeError of \<^verbatim>\<open>fill_metron\<close> leaves \<^verbatim>\<open>scan_trimeter\<close>.
\<close>

theorem scan_trimeter_raises:
  "scan_trimeter (plain_platform line_5) (concat line_5) = Inl TypeError"
  using loop_line_5 by (simp add: scan_trimeter_def raw_line_5)

section \<open>Symbols left over by the backward pass\<close>

lemma loop_line_13:
  "scan_trimeter_loop \<lparr>trimeter = [], current = [], is_last = True, countdown = 13\<rparr>
     (rev [SHORT, SHORT, LONG, SHORT, LONG, SHORT, LONG, SHORT, LONG, SHORT, LONG, SHORT,
           LONG])
   = Inr \<lparr>trimeter = [[SHORT, LONG, SHORT, LONG], [SHORT, LONG, SHORT, LONG],
                      [SHORT, LONG, SHORT, LONG]],
          current = [SHORT], is_last = False, countdown = 10\<rparr>"
  by code_simp

text \<open>
  C4. The claim is that a successful scansion has as many symbols as the raw meter. The
  raw meter of the line of thirteen syllables has thirteen symbols; the backward pass
  forms three metra from the last twelve, leaves the first symbol in \<^verbatim>\<open>current\<close>, and
  \<^verbatim>\<open>scan_trimeter\<close> returns twelve symbols.
\<close>

theorem scan_trimeter_drops_symbol:
  "scan_line (plain_platform line_13) (concat line_13) =
     Inr [SHORT, SHORT, LONG, SHORT, LONG, SHORT, LONG, SHORT, LONG, SHORT, LONG, SHORT, LONG]
   \<and> scan_trimeter (plain_platform line_13) (concat line_13) =
     Inr (Scansion [SHORT, LONG, SHORT, LONG, SHORT, LONG, SHORT, LONG, SHORT, LONG, SHORT,
                    LONG])"
  using loop_line_13 by (simp add: scan_trimeter_def raw_line_13)

section \<open>The lengths of the metra\<close>

text \<open>A string matches a group followed by more groups when it splits accordingly.\<close>

lemma regex_match_Cons:
  "regex_match (alts # groups) s = (\<exists>a\<in>set alts. \<exists>t. s = a @ t \<and> regex_match groups t)"
proof -
  have "\<And>a. (take (length a) s = a \<and> regex_match groups (drop (length a) s))
            = (\<exists>t. s = a @ t \<and> regex_match groups t)"
  proof
    fix a
    assume "take (length a) s = a \<and> regex_match groups (drop (length a) s)"
    then have "s = a @ drop (length a) s \<and> regex_match groups (drop (length a) s)"
      by (metis append_take_drop_id)
    then show "\<exists>t. s = a @ t \<and> regex_match groups t" by blast
  next
    fix a
    assume "\<exists>t. s = a @ t \<and> regex_match groups t"
    then show "take (length a) s = a \<and> regex_match groups (drop (length a) s)" by auto
  qed
  then show ?thesis by (simp add: list_ex_iff)
qed

lemma regex_match_one: "regex_match [g] s = (s \<in> set g)"
  by (auto simp: regex_match_Cons simp del: regex_match.simps(2))

lemma regex_match_four:
  "regex_match [g1, g2, g3, g4] s
     = (\<exists>a\<in>set g1. \<exists>b\<in>set g2. \<exists>c\<in>set g3. \<exists>d\<in>set g4. s = a @ b @ c @ d)"
proof -
  have 2: "\<And>t. regex_match [g3, g4] t = (\<exists>c\<in>set g3. \<exists>d\<in>set g4. t = c @ d)"
    by (subst regex_match_Cons) (simp only: regex_match_one, blast)
  have 3: "\<And>t. regex_match [g2, g3, g4] t
             = (\<exists>b\<in>set g2. \<exists>c\<in>set g3. \<exists>d\<in>set g4. t = b @ c @ d)"
    by (subst regex_match_Cons) (simp only: 2, blast)
  show ?thesis
    by (subst regex_match_Cons) (simp only: 3, blast)
qed

lemma final_metron_length:
  assumes "is_iambic_metron s True"
  shows "4 \<le> length s \<and> length s \<le> 6"
proof -
  from assms have "regex_match IAMBIC_FINAL s"
    by (simp add: is_iambic_metron_def split: if_splits)
  then obtain a b c d where s: "s = a @ b @ c @ d"
    and a: "a \<in> set [[SHORT, SHORT], [LONG], [SHORT], [UNKNOWN], [SHORT, UNKNOWN], [UNKNOWN, SHORT]]"
    and b: "b \<in> set [[SHORT, SHORT], [LONG], [UNKNOWN], [SHORT, UNKNOWN], [UNKNOWN, SHORT]]"
    and c: "c \<in> set [[SHORT], [UNKNOWN]]"
    and d: "d \<in> set [[LONG], [SHORT], [UNKNOWN]]"
    unfolding IAMBIC_FINAL_def regex_match_four by blast
  from a have "1 \<le> length a \<and> length a \<le> 2" by auto
  moreover from b have "1 \<le> length b \<and> length b \<le> 2" by auto
  moreover from c have "length c = 1" by auto
  moreover from d have "length d = 1" by auto
  ultimately show ?thesis using s by simp
qed

lemma nonfinal_metron_length:
  assumes "is_iambic_metron s False"
  shows "4 \<le> length s \<and> length s \<le> 7"
proof -
  from assms have "regex_match IAMBIC_NONFINAL s"
    by (simp add: is_iambic_metron_def split: if_splits)
  then obtain a b c d where s: "s = a @ b @ c @ d"
    and a: "a \<in> set [[SHORT, SHORT], [LONG], [SHORT], [UNKNOWN], [SHORT, UNKNOWN], [UNKNOWN, SHORT]]"
    and b: "b \<in> set [[SHORT, SHORT], [LONG], [UNKNOWN], [SHORT, UNKNOWN], [UNKNOWN, SHORT]]"
    and c: "c \<in> set [[SHORT], [UNKNOWN]]"
    and d: "d \<in> set [[SHORT, SHORT], [LONG], [UNKNOWN], [UNKNOWN, SHORT], [SHORT, UNKNOWN]]"
    unfolding IAMBIC_NONFINAL_def regex_match_four by blast
  from a have "1 \<le> length a \<and> length a \<le> 2" by auto
  moreover from b have "1 \<le> length b \<and> length b \<le> 2" by auto
  moreover from c have "length c = 1" by auto
  moreover from d have "1 \<le> length d \<and> length d \<le> 2" by auto
  ultimately show ?thesis using s by simp
qed

text \<open>A non-final metron of seven symbols consists of three pairs around one symbol.\<close>

lemma nonfinal_seven:
  assumes "is_iambic_metron s False" and "length s = 7"
  shows "\<exists>a b c d. s = a @ b @ [c] @ d
          \<and> a \<in> set [[SHORT, SHORT], [SHORT, UNKNOWN], [UNKNOWN, SHORT]]
          \<and> b \<in> set [[SHORT, SHORT], [SHORT, UNKNOWN], [UNKNOWN, SHORT]]
          \<and> c \<in> set [SHORT, UNKNOWN]
          \<and> d \<in> set [[SHORT, SHORT], [SHORT, UNKNOWN], [UNKNOWN, SHORT]]"
proof -
  from assms have "regex_match IAMBIC_NONFINAL s"
    by (simp add: is_iambic_metron_def split: if_splits)
  then obtain a b c d where s: "s = a @ b @ c @ d"
    and a: "a \<in> set [[SHORT, SHORT], [LONG], [SHORT], [UNKNOWN], [SHORT, UNKNOWN], [UNKNOWN, SHORT]]"
    and b: "b \<in> set [[SHORT, SHORT], [LONG], [UNKNOWN], [SHORT, UNKNOWN], [UNKNOWN, SHORT]]"
    and c: "c \<in> set [[SHORT], [UNKNOWN]]"
    and d: "d \<in> set [[SHORT, SHORT], [LONG], [UNKNOWN], [UNKNOWN, SHORT], [SHORT, UNKNOWN]]"
    unfolding IAMBIC_NONFINAL_def regex_match_four by blast
  from a have la: "length a \<le> 2" by auto
  from b have lb: "length b \<le> 2" by auto
  from c have lc: "length c = 1" by auto
  from d have ld: "length d \<le> 2" by auto
  from s assms(2) la lb lc ld have l: "length a = 2" "length b = 2" "length d = 2" by auto
  from a l have a': "a \<in> set [[SHORT, SHORT], [SHORT, UNKNOWN], [UNKNOWN, SHORT]]" by auto
  from b l have b': "b \<in> set [[SHORT, SHORT], [SHORT, UNKNOWN], [UNKNOWN, SHORT]]" by auto
  from d l have d': "d \<in> set [[SHORT, SHORT], [SHORT, UNKNOWN], [UNKNOWN, SHORT]]" by auto
  from c obtain c' where c': "c = [c']" "c' \<in> set [SHORT, UNKNOWN]" by auto
  from s a' b' d' c' show ?thesis by blast
qed

lemma is_iambic_metron_False: "is_iambic_metron s False = regex_match IAMBIC_NONFINAL s"
  by (simp add: is_iambic_metron_def)

lemma is_iambic_metron_nonfinal_iff:
  "is_iambic_metron s False =
     (\<exists>a\<in>set [[SHORT, SHORT], [LONG], [SHORT], [UNKNOWN], [SHORT, UNKNOWN], [UNKNOWN, SHORT]].
      \<exists>b\<in>set [[SHORT, SHORT], [LONG], [UNKNOWN], [SHORT, UNKNOWN], [UNKNOWN, SHORT]].
      \<exists>c\<in>set [[SHORT], [UNKNOWN]].
      \<exists>d\<in>set [[SHORT, SHORT], [LONG], [UNKNOWN], [UNKNOWN, SHORT], [SHORT, UNKNOWN]].
        s = a @ b @ c @ d)"
  unfolding is_iambic_metron_False IAMBIC_NONFINAL_def by (rule regex_match_four)

lemma nonfinal_seven_tl:
  assumes "is_iambic_metron s False" and "length s = 7"
  shows "is_iambic_metron (tl s) False"
proof -
  from nonfinal_seven [OF assms] obtain a b c d where s: "s = a @ b @ [c] @ d"
    and a: "a \<in> set [[SHORT, SHORT], [SHORT, UNKNOWN], [UNKNOWN, SHORT]]"
    and b: "b \<in> set [[SHORT, SHORT], [SHORT, UNKNOWN], [UNKNOWN, SHORT]]"
    and c: "c \<in> set [SHORT, UNKNOWN]"
    and d: "d \<in> set [[SHORT, SHORT], [SHORT, UNKNOWN], [UNKNOWN, SHORT]]"
    by blast
  from a obtain a1 a2 where a12: "a = [a1, a2]" and a2: "a2 \<in> set [SHORT, UNKNOWN]" by auto
  from s a12 have t: "tl s = [a2] @ b @ [c] @ d" by simp
  have "[a2] \<in> set [[SHORT, SHORT], [LONG], [SHORT], [UNKNOWN], [SHORT, UNKNOWN], [UNKNOWN, SHORT]]"
    using a2 by auto
  moreover have "b \<in> set [[SHORT, SHORT], [LONG], [UNKNOWN], [SHORT, UNKNOWN], [UNKNOWN, SHORT]]"
    using b by auto
  moreover have "[c] \<in> set [[SHORT], [UNKNOWN]]" using c by auto
  moreover have "d \<in> set [[SHORT, SHORT], [LONG], [UNKNOWN], [UNKNOWN, SHORT], [SHORT, UNKNOWN]]"
    using d by auto
  ultimately show ?thesis
    unfolding is_iambic_metron_nonfinal_iff using t by blast
qed

lemma nonfinal_intro:
  assumes "a \<in> set [[SHORT, SHORT], [LONG], [SHORT], [UNKNOWN], [SHORT, UNKNOWN], [UNKNOWN, SHORT]]"
    and "b \<in> set [[SHORT, SHORT], [LONG], [UNKNOWN], [SHORT, UNKNOWN], [UNKNOWN, SHORT]]"
    and "c \<in> set [[SHORT], [UNKNOWN]]"
    and "d \<in> set [[SHORT, SHORT], [LONG], [UNKNOWN], [UNKNOWN, SHORT], [SHORT, UNKNOWN]]"
  shows "is_iambic_metron (a @ b @ c @ d) False"
  unfolding is_iambic_metron_nonfinal_iff using assms by blast

lemma nonfinal_seven_symbols:
  assumes "is_iambic_metron s False" and "length s = 7"
  shows "\<exists>a1 a2 b1 b2 c d1 d2. s = [a1, a2, b1, b2, c, d1, d2]
          \<and> [a1, a2] \<in> set [[SHORT, SHORT], [SHORT, UNKNOWN], [UNKNOWN, SHORT]]
          \<and> [b1, b2] \<in> set [[SHORT, SHORT], [SHORT, UNKNOWN], [UNKNOWN, SHORT]]
          \<and> c \<in> set [SHORT, UNKNOWN]
          \<and> [d1, d2] \<in> set [[SHORT, SHORT], [SHORT, UNKNOWN], [UNKNOWN, SHORT]]"
proof -
  from nonfinal_seven [OF assms] obtain a b c d where s: "s = a @ b @ [c] @ d"
    and a: "a \<in> set [[SHORT, SHORT], [SHORT, UNKNOWN], [UNKNOWN, SHORT]]"
    and b: "b \<in> set [[SHORT, SHORT], [SHORT, UNKNOWN], [UNKNOWN, SHORT]]"
    and c: "c \<in> set [SHORT, UNKNOWN]"
    and d: "d \<in> set [[SHORT, SHORT], [SHORT, UNKNOWN], [UNKNOWN, SHORT]]"
    by blast
  from a obtain a1 a2 where a12: "a = [a1, a2]" by auto
  from b obtain b1 b2 where b12: "b = [b1, b2]" by auto
  from d obtain d1 d2 where d12: "d = [d1, d2]" by auto
  from s a12 b12 d12 have "s = [a1, a2, b1, b2, c, d1, d2]" by simp
  with a b c d a12 b12 d12 show ?thesis by blast
qed

lemma nonfinal_seven_prefix:
  assumes "is_iambic_metron s False" and "length s = 7"
  shows "is_iambic_metron (take 4 s) False \<or> is_iambic_metron (take 5 s) False
         \<or> is_iambic_metron (take 6 s) False"
proof -
  from nonfinal_seven_symbols [OF assms] obtain a1 a2 b1 b2 c d1 d2
    where s: "s = [a1, a2, b1, b2, c, d1, d2]"
    and a: "[a1, a2] \<in> set [[SHORT, SHORT], [SHORT, UNKNOWN], [UNKNOWN, SHORT]]"
    and b: "[b1, b2] \<in> set [[SHORT, SHORT], [SHORT, UNKNOWN], [UNKNOWN, SHORT]]"
    and c: "c \<in> set [SHORT, UNKNOWN]"
    and d: "[d1, d2] \<in> set [[SHORT, SHORT], [SHORT, UNKNOWN], [UNKNOWN, SHORT]]"
    by blast
  from s have t4: "take 4 s = [a1] @ [a2] @ [b1] @ [b2]"
    and t5a: "take 5 s = [a1] @ [a2] @ [b1] @ [b2, c]"
    and t5b: "take 5 s = [a1] @ [a2, b1] @ [b2] @ [c]"
    and t6: "take 6 s = [a1] @ [a2, b1] @ [b2] @ [c, d1]"
    by simp_all
  from a have a1: "[a1] \<in> set [[SHORT, SHORT], [LONG], [SHORT], [UNKNOWN], [SHORT, UNKNOWN],
      [UNKNOWN, SHORT]]" by auto
  from b have b1: "[b1] \<in> set [[SHORT], [UNKNOWN]]" and b2: "[b2] \<in> set [[SHORT], [UNKNOWN]]"
    by auto
  show ?thesis
  proof (cases "a2 = UNKNOWN")
    case True
    then have a2: "[a2] \<in> set [[SHORT, SHORT], [LONG], [UNKNOWN], [SHORT, UNKNOWN],
        [UNKNOWN, SHORT]]" by simp
    show ?thesis
    proof (cases "b2 = UNKNOWN")
      case True
      then have "[b2] \<in> set [[SHORT, SHORT], [LONG], [UNKNOWN], [UNKNOWN, SHORT],
          [SHORT, UNKNOWN]]" by simp
      from nonfinal_intro [OF a1 a2 b1 this] show ?thesis by (simp only: t4 simp_thms)
    next
      case False
      with b c have "[b2, c] \<in> set [[SHORT, SHORT], [LONG], [UNKNOWN], [UNKNOWN, SHORT],
          [SHORT, UNKNOWN]]" by auto
      from nonfinal_intro [OF a1 a2 b1 this] show ?thesis by (simp only: t5a simp_thms)
    qed
  next
    case False
    with a b have ab: "[a2, b1] \<in> set [[SHORT, SHORT], [LONG], [UNKNOWN], [SHORT, UNKNOWN],
        [UNKNOWN, SHORT]]" by auto
    show ?thesis
    proof (cases "c = UNKNOWN \<and> d1 = UNKNOWN")
      case True
      then have "[c] \<in> set [[SHORT, SHORT], [LONG], [UNKNOWN], [UNKNOWN, SHORT],
          [SHORT, UNKNOWN]]" by simp
      from nonfinal_intro [OF a1 ab b2 this] show ?thesis by (simp only: t5b simp_thms)
    next
      case False
      with c d have "[c, d1] \<in> set [[SHORT, SHORT], [LONG], [UNKNOWN], [UNKNOWN, SHORT],
          [SHORT, UNKNOWN]]" by auto
      from nonfinal_intro [OF a1 ab b2 this] show ?thesis by (simp only: t6 simp_thms)
    qed
  qed
qed

lemma fill_metron_length:
  assumes "fill_metron metron final = Inr filled" and "metron_length_ok metron"
  shows "length filled = length metron"
proof -
  consider "length metron = 4" | "length metron = 6" | "length metron = 5"
    using assms(2) by (auto simp: metron_length_ok_def)
  then show ?thesis
  proof cases
    case 1
    with assms(1) show ?thesis by (auto simp: fill_metron_def)
  next
    case 2
    with assms(1) show ?thesis by (auto simp: fill_metron_def)
  next
    case 3
    with assms(1) obtain rest where
      "filter (wildcard_match metron) possible_metra = filled # rest"
      by (auto simp: fill_metron_def split: list.splits if_splits)
    then have "filled \<in> set (filter (wildcard_match metron) possible_metra)" by simp
    then have "filled \<in> set possible_metra" by simp
    then have "length filled = 5" by (auto simp: possible_metra_def)
    with 3 show ?thesis by simp
  qed
qed

lemma backward_handed:
  assumes "backward_inv st"
    and "is_iambic_metron (m # current st) (is_last st)"
    and "countdown st = 1 \<or> countdown st > 4"
  shows "metron_length_ok (m # current st)"
proof (cases "is_last st")
  case True
  with assms(2) final_metron_length [of "m # current st"] show ?thesis
    by (auto simp: metron_length_ok_def)
next
  case False
  with assms(2) have nf: "is_iambic_metron (m # current st) False" by simp
  from nonfinal_metron_length [OF nf]
  have b: "4 \<le> length (m # current st) \<and> length (m # current st) \<le> 7" .
  have "length (m # current st) \<noteq> 7"
  proof
    assume 7: "length (m # current st) = 7"
    from nonfinal_seven_tl [OF nf 7] have "is_iambic_metron (current st) False" by simp
    moreover from 7 have "length (current st) = 6" by simp
    ultimately show False using assms(1,3) False by (simp add: backward_inv_def)
  qed
  with b show ?thesis by (auto simp: metron_length_ok_def)
qed

lemma backward_step_inv:
  assumes "backward_inv st" and "scan_trimeter_step st m = Inr st'"
  shows "backward_inv st'"
proof (cases "length (m # current st) < 4")
  case True
  with assms show ?thesis
    by (auto simp: backward_inv_def scan_trimeter_step_def Let_def)
next
  case False
  show ?thesis
  proof (cases "is_iambic_metron (m # current st) (is_last st)
                \<and> (countdown st = 1 \<or> countdown st > 4)")
    case True
    with False assms(2) obtain metron where
      f: "fill_metron (m # current st) (is_last st) = Inr metron"
      and st': "st' = \<lparr>trimeter = metron # trimeter st, current = [],
                       is_last = False, countdown = countdown st - 1\<rparr>"
      by (auto simp: scan_trimeter_step_def Let_def split: sum.splits)
    from True backward_handed [OF assms(1)] have ok: "metron_length_ok (m # current st)"
      by blast
    from fill_metron_length [OF f ok] ok have "metron_length_ok metron"
      by (simp add: metron_length_ok_def)
    with assms(1) st' show ?thesis by (simp add: backward_inv_def)
  next
    case no: False
    with False assms(2) have st': "st' = st\<lparr>current := m # current st\<rparr>"
      by (auto simp: scan_trimeter_step_def Let_def split: if_splits)
    have "\<not> is_iambic_metron (drop (length (m # current st) - 6) (m # current st)) (is_last st)"
      if c: "countdown st = 1 \<or> countdown st > 4" and l: "6 \<le> length (m # current st)"
    proof (cases "length (current st) < 6")
      case True
      with l have "length (m # current st) - 6 = 0" by simp
      then have "drop (length (m # current st) - 6) (m # current st) = m # current st"
        by simp
      with no c show ?thesis by simp
    next
      case False
      then have "length (m # current st) - 6 = Suc (length (current st) - 6)" by simp
      then have "drop (length (m # current st) - 6) (m # current st)
                 = drop (length (current st) - 6) (current st)" by simp
      with assms(1) c False show ?thesis by (simp add: backward_inv_def)
    qed
    with assms(1) st' show ?thesis by (simp add: backward_inv_def)
  qed
qed

lemma backward_loop_inv:
  "backward_inv st \<Longrightarrow> scan_trimeter_loop st ms = Inr st' \<Longrightarrow> backward_inv st'"
proof (induction ms arbitrary: st)
  case Nil
  then show ?case by simp
next
  case (Cons m ms)
  from Cons.prems(2) obtain st1 where s: "scan_trimeter_step st m = Inr st1"
    and l: "scan_trimeter_loop st1 ms = Inr st'"
    by (auto split: sum.splits)
  from backward_step_inv [OF Cons.prems(1) s] have "backward_inv st1" .
  from Cons.IH [OF this l] show ?case .
qed

lemma forward_handed:
  assumes "forward_len_inv st"
    and "is_iambic_metron (current st @ [m]) (countdown st = 1 \<or> is_last st)"
    and "countdown st = 1 \<or> countdown st > 4"
  shows "metron_length_ok (current st @ [m])"
proof (cases "countdown st = 1 \<or> is_last st")
  case True
  with assms(2) final_metron_length [of "current st @ [m]"] show ?thesis
    by (auto simp: metron_length_ok_def)
next
  case False
  with assms(2) have nf: "is_iambic_metron (current st @ [m]) False" by simp
  from nonfinal_metron_length [OF nf]
  have b: "4 \<le> length (current st @ [m]) \<and> length (current st @ [m]) \<le> 7" .
  have "length (current st @ [m]) \<noteq> 7"
  proof
    assume 7: "length (current st @ [m]) = 7"
    then have 6: "length (current st) = 6" by simp
    from nonfinal_seven_prefix [OF nf 7] 6
    have "is_iambic_metron (take 4 (current st)) False
          \<or> is_iambic_metron (take 5 (current st)) False
          \<or> is_iambic_metron (take 6 (current st)) False" by simp
    with assms(1,3) False 6 show False by (auto simp: forward_len_inv_def)
  qed
  with b show ?thesis by (auto simp: metron_length_ok_def)
qed

lemma forward_len_step_inv:
  assumes "forward_len_inv st" and "scan_trimeter_2_step st m = Inr st'"
  shows "forward_len_inv st'"
proof (cases "length (current st @ [m]) < 4")
  case True
  with assms show ?thesis
    by (auto simp: forward_len_inv_def scan_trimeter_2_step_def Let_def)
next
  case False
  let ?last = "countdown st = 1 \<or> is_last st"
  have last: "(if countdown st = 1 then True else is_last st) = ?last" by simp
  show ?thesis
  proof (cases "is_iambic_metron (current st @ [m]) ?last
                \<and> (countdown st = 1 \<or> countdown st > 4)")
    case True
    with False assms(2) obtain metron where
      f: "fill_metron (current st @ [m]) ?last = Inr metron"
      and st': "st' = \<lparr>trimeter = trimeter st @ [metron], current = [],
                       is_last = ?last, countdown = countdown st - 1\<rparr>"
      unfolding scan_trimeter_2_step_def Let_def last
      by (auto split: sum.splits)
    from True forward_handed [OF assms(1)] have ok: "metron_length_ok (current st @ [m])"
      by blast
    from fill_metron_length [OF f ok] ok have "metron_length_ok metron"
      by (simp add: metron_length_ok_def)
    with assms(1) st' show ?thesis by (simp add: forward_len_inv_def)
  next
    case no: False
    with False assms(2) have st': "st' = st\<lparr>current := current st @ [m], is_last := ?last\<rparr>"
      unfolding scan_trimeter_2_step_def Let_def last
      by (auto split: if_splits)
    have "\<not> is_iambic_metron (take k (current st @ [m])) ?last"
      if c: "countdown st = 1 \<or> countdown st > 4" and k: "k \<in> {4, 5, 6}"
        and l: "k \<le> length (current st @ [m])" for k
    proof (cases "k \<le> length (current st)")
      case True
      then have "take k (current st @ [m]) = take k (current st)" by simp
      with assms(1) c k True show ?thesis by (auto simp: forward_len_inv_def)
    next
      case False
      with l have "take k (current st @ [m]) = current st @ [m]" by simp
      with no c show ?thesis by simp
    qed
    with assms(1) st' show ?thesis by (auto simp: forward_len_inv_def)
  qed
qed

lemma forward_len_loop_inv:
  "forward_len_inv st \<Longrightarrow> scan_trimeter_2_loop st ms = Inr st' \<Longrightarrow> forward_len_inv st'"
proof (induction ms arbitrary: st)
  case Nil
  then show ?case by simp
next
  case (Cons m ms)
  from Cons.prems(2) obtain st1 where s: "scan_trimeter_2_step st m = Inr st1"
    and l: "scan_trimeter_2_loop st1 ms = Inr st'"
    by (auto split: sum.splits)
  from forward_len_step_inv [OF Cons.prems(1) s] have "forward_len_inv st1" .
  from Cons.IH [OF this l] show ?case .
qed

lemma backward_inv_init:
  "backward_inv \<lparr>trimeter = [], current = [], is_last = True, countdown = n\<rparr>"
  by (simp add: backward_inv_def)

lemma forward_len_inv_init:
  "forward_len_inv \<lparr>trimeter = [], current = [], is_last = False, countdown = n\<rparr>"
  by (simp add: forward_len_inv_def)

text \<open>
  C8, as stated, fails: the non-final grammar accepts seven short symbols (a resolved
  anceps and two resolved longs).
\<close>

theorem seven_shorts_accepted:
  "is_iambic_metron [SHORT, SHORT, SHORT, SHORT, SHORT, SHORT, SHORT] False
   \<and> \<not> length [SHORT, SHORT, SHORT, SHORT, SHORT, SHORT, SHORT] \<le> 6"
  by (simp add: is_iambic_metron_def IAMBIC_NONFINAL_def)

text \<open>
  C8, amended. A string accepted by the final grammar has 4 to 6 symbols, one accepted
  by the non-final grammar 4 to 7. All the same, whatever the passes have read so far,
  a string that passes the test of the loop and is handed to \<^verbatim>\<open>fill_metron\<close>, in the
  backward pass or in the forward pass, has 4, 5 or 6 symbols: of a non-final metron of
  seven symbols, a shorter part was a metron already.
\<close>

theorem metron_lengths:
  "(is_iambic_metron s True \<longrightarrow> 4 \<le> length s \<and> length s \<le> 6)
   \<and> (is_iambic_metron s False \<longrightarrow> 4 \<le> length s \<and> length s \<le> 7)
   \<and> (scan_trimeter_loop \<lparr>trimeter = [], current = [], is_last = True, countdown = n\<rparr> ms
         = Inr st
       \<and> is_iambic_metron (m # current st) (is_last st)
       \<and> (countdown st = 1 \<or> countdown st > 4)
       \<longrightarrow> length (m # current st) \<in> {4, 5, 6})
   \<and> (scan_trimeter_2_loop \<lparr>trimeter = [], current = [], is_last = False, countdown = n'\<rparr> ms'
         = Inr st'
       \<and> is_iambic_metron (current st' @ [m']) (if countdown st' = 1 then True else is_last st')
       \<and> (countdown st' = 1 \<or> countdown st' > 4)
       \<longrightarrow> length (current st' @ [m']) \<in> {4, 5, 6})"
proof -
  have 1: "is_iambic_metron s True \<longrightarrow> 4 \<le> length s \<and> length s \<le> 6"
    using final_metron_length by blast
  have 2: "is_iambic_metron s False \<longrightarrow> 4 \<le> length s \<and> length s \<le> 7"
    using nonfinal_metron_length by blast
  have 3: "scan_trimeter_loop \<lparr>trimeter = [], current = [], is_last = True, countdown = n\<rparr> ms
         = Inr st
       \<and> is_iambic_metron (m # current st) (is_last st)
       \<and> (countdown st = 1 \<or> countdown st > 4)
       \<longrightarrow> length (m # current st) \<in> {4, 5, 6}"
  proof
    assume a: "scan_trimeter_loop \<lparr>trimeter = [], current = [], is_last = True, countdown = n\<rparr>
           ms = Inr st
         \<and> is_iambic_metron (m # current st) (is_last st)
         \<and> (countdown st = 1 \<or> countdown st > 4)"
    then have "backward_inv st" using backward_loop_inv [OF backward_inv_init] by blast
    from backward_handed [OF this] a show "length (m # current st) \<in> {4, 5, 6}"
      by (auto simp: metron_length_ok_def)
  qed
  have 4: "scan_trimeter_2_loop \<lparr>trimeter = [], current = [], is_last = False, countdown = n'\<rparr> ms'
         = Inr st'
       \<and> is_iambic_metron (current st' @ [m']) (if countdown st' = 1 then True else is_last st')
       \<and> (countdown st' = 1 \<or> countdown st' > 4)
       \<longrightarrow> length (current st' @ [m']) \<in> {4, 5, 6}"
  proof
    assume a: "scan_trimeter_2_loop
           \<lparr>trimeter = [], current = [], is_last = False, countdown = n'\<rparr> ms' = Inr st'
         \<and> is_iambic_metron (current st' @ [m'])
             (if countdown st' = 1 then True else is_last st')
         \<and> (countdown st' = 1 \<or> countdown st' > 4)"
    then have i: "forward_len_inv st'"
      using forward_len_loop_inv [OF forward_len_inv_init] by blast
    have "(if countdown st' = 1 then True else is_last st')
          = (countdown st' = 1 \<or> is_last st')"
      by simp
    with a have "is_iambic_metron (current st' @ [m']) (countdown st' = 1 \<or> is_last st')"
      by simp
    from forward_handed [OF i this] a show "length (current st' @ [m']) \<in> {4, 5, 6}"
      by (auto simp: metron_length_ok_def)
  qed
  show ?thesis by (rule conjI [OF 1 conjI [OF 2 conjI [OF 3 4]]])
qed

lemma backward_three:
  "scan_trimeter_loop \<lparr>trimeter = [], current = [], is_last = True, countdown = 12\<rparr>
     [LONG, SHORT, LONG]
   = Inr \<lparr>trimeter = [], current = [LONG, SHORT, LONG], is_last = True, countdown = 12\<rparr>"
  by code_simp

lemma forward_three:
  "scan_trimeter_2_loop \<lparr>trimeter = [], current = [], is_last = False, countdown = 12\<rparr>
     [SHORT, LONG, SHORT]
   = Inr \<lparr>trimeter = [], current = [SHORT, LONG, SHORT], is_last = False, countdown = 12\<rparr>"
  by code_simp

lemma iambic_SLSL: "is_iambic_metron [SHORT, LONG, SHORT, LONG] final"
  by (cases final) (simp_all add: is_iambic_metron_def IAMBIC_NONFINAL_def IAMBIC_FINAL_def)

theorem metron_lengths_witness:
  "is_iambic_metron [SHORT, LONG, SHORT, LONG] True
   \<and> is_iambic_metron [SHORT, LONG, SHORT, LONG] False
   \<and> scan_trimeter_loop \<lparr>trimeter = [], current = [], is_last = True, countdown = 12\<rparr>
       [LONG, SHORT, LONG]
     = Inr \<lparr>trimeter = [], current = [LONG, SHORT, LONG], is_last = True, countdown = 12\<rparr>
   \<and> scan_trimeter_2_loop \<lparr>trimeter = [], current = [], is_last = False, countdown = 12\<rparr>
       [SHORT, LONG, SHORT]
     = Inr \<lparr>trimeter = [], current = [SHORT, LONG, SHORT], is_last = False, countdown = 12\<rparr>
   \<and> length [SHORT, LONG, SHORT, LONG] \<in> {4, 5, 6}"
  using metron_lengths [of "[SHORT, LONG, SHORT, LONG]" 12 "[LONG, SHORT, LONG]"
      "\<lparr>trimeter = [], current = [LONG, SHORT, LONG], is_last = True, countdown = 12\<rparr>"
      SHORT 12 "[SHORT, LONG, SHORT]"
      "\<lparr>trimeter = [], current = [SHORT, LONG, SHORT], is_last = False, countdown = 12\<rparr>"
      LONG]
    backward_three forward_three iambic_SLSL
  by simp

section \<open>The length of the scansion\<close>

lemma list_three:
  assumes "length xs = 3"
  shows "\<exists>a b c. xs = [a, b, c]"
proof -
  from assms obtain a ys where 1: "xs = a # ys" and "length ys = 2"
    by (cases xs) auto
  then obtain b zs where 2: "ys = b # zs" and "length zs = 1" by (cases ys) auto
  then obtain c where "zs = [c]" by (cases zs) auto
  with 1 2 show ?thesis by simp
qed

lemma backward_trace_step:
  assumes "backward_inv st" and "backward_trace seen st cands"
    and "scan_trimeter_step st m = Inr st'"
  shows "\<exists>cands'. backward_trace (seen @ [m]) st' cands'"
proof (cases "4 \<le> length (m # current st)
              \<and> is_iambic_metron (m # current st) (is_last st)
              \<and> (countdown st = 1 \<or> countdown st > 4)")
  case True
  with assms(3) obtain metron where
    f: "fill_metron (m # current st) (is_last st) = Inr metron"
    and st': "st' = \<lparr>trimeter = metron # trimeter st, current = [],
                     is_last = False, countdown = countdown st - 1\<rparr>"
    by (auto simp: scan_trimeter_step_def Let_def split: sum.splits)
  from True backward_handed [OF assms(1)] have ok: "metron_length_ok (m # current st)"
    by blast
  from fill_metron_length [OF f ok] True f ok
  have "filled_from (m # current st, is_last st) metron"
    by (simp add: filled_from_def)
  with assms(2) st' have "backward_trace (seen @ [m]) st' ((m # current st, is_last st) # cands)"
    by (simp add: backward_trace_def)
  then show ?thesis ..
next
  case False
  with assms(3) have "st' = st\<lparr>current := m # current st\<rparr>"
    by (auto simp: scan_trimeter_step_def Let_def split: if_splits)
  with assms(2) have "backward_trace (seen @ [m]) st' cands"
    by (simp add: backward_trace_def)
  then show ?thesis ..
qed

lemma backward_trace_loop:
  "backward_inv st \<Longrightarrow> backward_trace seen st cands \<Longrightarrow> scan_trimeter_loop st ms = Inr st'
     \<Longrightarrow> \<exists>cands'. backward_trace (seen @ ms) st' cands'"
proof (induction ms arbitrary: st seen cands)
  case Nil
  then show ?case by auto
next
  case (Cons m ms)
  from Cons.prems(3) obtain st1 where s: "scan_trimeter_step st m = Inr st1"
    and l: "scan_trimeter_loop st1 ms = Inr st'"
    by (auto split: sum.splits)
  from backward_step_inv [OF Cons.prems(1) s] have i: "backward_inv st1" .
  from backward_trace_step [OF Cons.prems(1,2) s] obtain cands1
    where t: "backward_trace (seen @ [m]) st1 cands1" ..
  from Cons.IH [OF i t l] show ?case by simp
qed

lemma forward_trace_step:
  assumes "forward_len_inv st" and "forward_trace seen st cands"
    and "scan_trimeter_2_step st m = Inr st'"
  shows "\<exists>cands'. forward_trace (seen @ [m]) st' cands'"
proof -
  let ?last = "countdown st = 1 \<or> is_last st"
  have last: "(if countdown st = 1 then True else is_last st) = ?last" by simp
  show ?thesis
  proof (cases "4 \<le> length (current st @ [m])
                \<and> is_iambic_metron (current st @ [m]) ?last
                \<and> (countdown st = 1 \<or> countdown st > 4)")
    case True
    with assms(3) obtain metron where
      f: "fill_metron (current st @ [m]) ?last = Inr metron"
      and st': "st' = \<lparr>trimeter = trimeter st @ [metron], current = [],
                       is_last = ?last, countdown = countdown st - 1\<rparr>"
      unfolding scan_trimeter_2_step_def Let_def last
      by (auto split: sum.splits)
    from True forward_handed [OF assms(1)] have ok: "metron_length_ok (current st @ [m])"
      by blast
    from fill_metron_length [OF f ok] True f ok
    have "filled_from (current st @ [m], ?last) metron"
      by (simp add: filled_from_def)
    with assms(2) st' have "forward_trace (seen @ [m]) st' (cands @ [(current st @ [m], ?last)])"
      by (simp add: forward_trace_def list_all2_appendI)
    then show ?thesis ..
  next
    case False
    with assms(3) have "current st' = current st @ [m] \<and> trimeter st' = trimeter st"
      unfolding scan_trimeter_2_step_def Let_def last
      by (auto split: if_splits)
    with assms(2) have "forward_trace (seen @ [m]) st' cands"
      by (simp add: forward_trace_def)
    then show ?thesis ..
  qed
qed

lemma forward_trace_loop:
  "forward_len_inv st \<Longrightarrow> forward_trace seen st cands \<Longrightarrow> scan_trimeter_2_loop st ms = Inr st'
     \<Longrightarrow> \<exists>cands'. forward_trace (seen @ ms) st' cands'"
proof (induction ms arbitrary: st seen cands)
  case Nil
  then show ?case by auto
next
  case (Cons m ms)
  from Cons.prems(3) obtain st1 where s: "scan_trimeter_2_step st m = Inr st1"
    and l: "scan_trimeter_2_loop st1 ms = Inr st'"
    by (auto split: sum.splits)
  from forward_len_step_inv [OF Cons.prems(1) s] have i: "forward_len_inv st1" .
  from forward_trace_step [OF Cons.prems(1,2) s] obtain cands1
    where t: "forward_trace (seen @ [m]) st1 cands1" ..
  from Cons.IH [OF i t l] show ?case by simp
qed

text \<open>Three filled metra, from three metra of 4, 5 or 6 symbols.\<close>

lemma three_filled:
  assumes "list_all2 filled_from cands metra" and "length metra = 3"
  shows "\<exists>c1 c2 c3 f1 f2 f3 m1 m2 m3.
           concat (map fst cands) = c1 @ c2 @ c3 \<and> concat metra = m1 @ m2 @ m3
           \<and> is_iambic_metron c1 f1 \<and> fill_metron c1 f1 = Inr m1
           \<and> length c1 \<in> {4, 5, 6} \<and> length m1 = length c1
           \<and> is_iambic_metron c2 f2 \<and> fill_metron c2 f2 = Inr m2
           \<and> length c2 \<in> {4, 5, 6} \<and> length m2 = length c2
           \<and> is_iambic_metron c3 f3 \<and> fill_metron c3 f3 = Inr m3
           \<and> length c3 \<in> {4, 5, 6} \<and> length m3 = length c3"
proof -
  from list_three [OF assms(2)] obtain m1 m2 m3 where m: "metra = [m1, m2, m3]" by blast
  from assms(1) have "length cands = 3" using assms(2) by (simp add: list_all2_lengthD)
  from list_three [OF this] obtain x1 x2 x3 where c: "cands = [x1, x2, x3]" by blast
  from assms(1) m c have f: "filled_from x1 m1" "filled_from x2 m2" "filled_from x3 m3"
    by simp_all
  have 1: "concat (map fst cands) = fst x1 @ fst x2 @ fst x3" using c by simp
  have 2: "concat metra = m1 @ m2 @ m3" using m by simp
  from f have
    "is_iambic_metron (fst x1) (snd x1) \<and> fill_metron (fst x1) (snd x1) = Inr m1
     \<and> length (fst x1) \<in> {4, 5, 6} \<and> length m1 = length (fst x1)"
    "is_iambic_metron (fst x2) (snd x2) \<and> fill_metron (fst x2) (snd x2) = Inr m2
     \<and> length (fst x2) \<in> {4, 5, 6} \<and> length m2 = length (fst x2)"
    "is_iambic_metron (fst x3) (snd x3) \<and> fill_metron (fst x3) (snd x3) = Inr m3
     \<and> length (fst x3) \<in> {4, 5, 6} \<and> length m3 = length (fst x3)"
    by (auto simp: filled_from_def metron_length_ok_def)
  with 1 2 show ?thesis by blast
qed

lemma backward_trace_init:
  "backward_trace [] \<lparr>trimeter = [], current = [], is_last = True, countdown = n\<rparr> []"
  by (simp add: backward_trace_def)

lemma forward_trace_init:
  "forward_trace [] \<lparr>trimeter = [], current = [], is_last = False, countdown = n\<rparr> []"
  by (simp add: forward_trace_def)

lemma loop_line_dactyl:
  "scan_trimeter_loop \<lparr>trimeter = [], current = [], is_last = True, countdown = 13\<rparr>
     (rev [LONG, SHORT, SHORT, SHORT, LONG, SHORT, LONG, SHORT, LONG, SHORT, LONG, SHORT,
           LONG])
   = Inr \<lparr>trimeter = [[LONG, SHORT, SHORT, SHORT, LONG], [SHORT, LONG, SHORT, LONG],
                      [SHORT, LONG, SHORT, LONG]],
          current = [], is_last = False, countdown = 10\<rparr>"
  by code_simp

lemma result_line_dactyl:
  "scan_trimeter (plain_platform line_dactyl) (concat line_dactyl) =
     Inr (Scansion [LONG, SHORT, SHORT, SHORT, LONG, SHORT, LONG, SHORT, LONG, SHORT, LONG,
                    SHORT, LONG])"
  using loop_line_dactyl by (simp add: scan_trimeter_def raw_line_dactyl)

text \<open>
  C5, as stated, fails: the line that opens with a dactyl has the raw meter
  \<^verbatim>\<open>LSSSL SLSL SLSL\<close>, its first metron is filled with five symbols, and the scansion
  has thirteen.
\<close>

theorem scan_trimeter_thirteen_symbols:
  "scan_trimeter (plain_platform line_dactyl) (concat line_dactyl) =
     Inr (Scansion [LONG, SHORT, SHORT, SHORT, LONG, SHORT, LONG, SHORT, LONG, SHORT, LONG,
                    SHORT, LONG])
   \<and> length [LONG, SHORT, SHORT, SHORT, LONG, SHORT, LONG, SHORT, LONG, SHORT, LONG,
             SHORT, LONG] = 13"
  by (simp add: result_line_dactyl)

text \<open>
  C5, amended. For a scansion that \<^verbatim>\<open>scan_trimeter\<close> returns there are three consecutive
  strings of 4, 5 or 6 symbols of the raw meter, at its end (after what the backward
  pass leaves over) or at its start (before what the forward pass leaves over), each
  accepted by the matcher under some flag, and the scansion is the concatenation of the
  three values of \<^verbatim>\<open>fill_metron\<close> for them. Each value has as many symbols as its string:
  a metron of five or six symbols is filled with five or six. So the scansion has 12 to
  18 symbols.
\<close>

theorem scan_trimeter_three_filled_metra:
  assumes "scan_trimeter E line = Inr (Scansion r)"
  shows "\<exists>raw_meter rest c1 c2 c3 f1 f2 f3 m1 m2 m3.
           scan_line E line = Inr raw_meter
           \<and> (raw_meter = rest @ c1 @ c2 @ c3 \<or> raw_meter = c1 @ c2 @ c3 @ rest)
           \<and> r = m1 @ m2 @ m3
           \<and> is_iambic_metron c1 f1 \<and> fill_metron c1 f1 = Inr m1
           \<and> length c1 \<in> {4, 5, 6} \<and> length m1 = length c1
           \<and> is_iambic_metron c2 f2 \<and> fill_metron c2 f2 = Inr m2
           \<and> length c2 \<in> {4, 5, 6} \<and> length m2 = length c2
           \<and> is_iambic_metron c3 f3 \<and> fill_metron c3 f3 = Inr m3
           \<and> length c3 \<in> {4, 5, 6} \<and> length m3 = length c3
           \<and> 12 \<le> length r \<and> length r \<le> 18"
proof -
  from assms obtain raw_meter st where
    raw: "scan_line E line = Inr raw_meter"
    and loop: "scan_trimeter_loop
       \<lparr>trimeter = [], current = [], is_last = True, countdown = int (length raw_meter)\<rparr>
       (rev raw_meter) = Inr st"
    and res: "if length (trimeter st) = 3 then r = concat (trimeter st)
         else (\<exists>metra. scan_trimeter_2 E line = Inr metra \<and> length metra = 3
                 \<and> r = concat metra)"
    by (auto simp: scan_trimeter_def split: sum.splits if_splits)
  have "\<exists>rest cands metra. list_all2 filled_from cands metra \<and> length metra = 3
          \<and> r = concat metra
          \<and> (raw_meter = rest @ concat (map fst cands)
              \<or> raw_meter = concat (map fst cands) @ rest)"
  proof (cases "length (trimeter st) = 3")
    case True
    from backward_trace_loop [OF backward_inv_init backward_trace_init loop]
    obtain cands where "backward_trace (rev raw_meter) st cands" by auto
    then have "list_all2 filled_from cands (trimeter st)"
      and "raw_meter = current st @ concat (map fst cands)"
      by (simp_all add: backward_trace_def)
    with True res show ?thesis by auto
  next
    case False
    with res obtain metra where m: "scan_trimeter_2 E line = Inr metra"
      and l: "length metra = 3" and r: "r = concat metra" by auto
    from m raw obtain st2 where
      loop2: "scan_trimeter_2_loop
         \<lparr>trimeter = [], current = [], is_last = False, countdown = int (length raw_meter)\<rparr>
         raw_meter = Inr st2"
      and t: "metra = trimeter st2"
      by (auto simp: scan_trimeter_2_def split: sum.splits)
    from forward_trace_loop [OF forward_len_inv_init forward_trace_init loop2]
    obtain cands where "forward_trace raw_meter st2 cands" by auto
    then have "list_all2 filled_from cands (trimeter st2)"
      and "raw_meter = concat (map fst cands) @ current st2"
      by (simp_all add: forward_trace_def)
    with l r t show ?thesis by auto
  qed
  then obtain rest cands metra where a: "list_all2 filled_from cands metra"
    and l: "length metra = 3" and r: "r = concat metra"
    and split: "raw_meter = rest @ concat (map fst cands)
                \<or> raw_meter = concat (map fst cands) @ rest"
    by blast
  from three_filled [OF a l] obtain c1 c2 c3 f1 f2 f3 m1 m2 m3 where
    cc: "concat (map fst cands) = c1 @ c2 @ c3" and mm: "concat metra = m1 @ m2 @ m3"
    and 1: "is_iambic_metron c1 f1 \<and> fill_metron c1 f1 = Inr m1
           \<and> length c1 \<in> {4, 5, 6} \<and> length m1 = length c1"
    and 2: "is_iambic_metron c2 f2 \<and> fill_metron c2 f2 = Inr m2
           \<and> length c2 \<in> {4, 5, 6} \<and> length m2 = length c2"
    and 3: "is_iambic_metron c3 f3 \<and> fill_metron c3 f3 = Inr m3
           \<and> length c3 \<in> {4, 5, 6} \<and> length m3 = length c3"
    by blast
  from split cc have s: "raw_meter = rest @ c1 @ c2 @ c3 \<or> raw_meter = c1 @ c2 @ c3 @ rest"
    by simp
  from r mm have rr: "r = m1 @ m2 @ m3" by simp
  from 1 2 3 rr have b: "12 \<le> length r \<and> length r \<le> 18" by auto
  from raw s rr 1 2 3 b show ?thesis by blast
qed

theorem scan_trimeter_three_filled_metra_witness:
  "scan_trimeter (plain_platform line_dactyl) (concat line_dactyl) =
     Inr (Scansion [LONG, SHORT, SHORT, SHORT, LONG, SHORT, LONG, SHORT, LONG, SHORT, LONG,
                    SHORT, LONG])
   \<and> (\<exists>m1 m2 m3. [LONG, SHORT, SHORT, SHORT, LONG, SHORT, LONG, SHORT, LONG, SHORT, LONG,
                   SHORT, LONG] = m1 @ m2 @ m3
         \<and> (\<exists>c1 f1. fill_metron c1 f1 = Inr m1 \<and> length m1 = length c1)
         \<and> (\<exists>c2 f2. fill_metron c2 f2 = Inr m2 \<and> length m2 = length c2)
         \<and> (\<exists>c3 f3. fill_metron c3 f3 = Inr m3 \<and> length m3 = length c3))"
  using result_line_dactyl scan_trimeter_three_filled_metra [OF result_line_dactyl] by blast


section \<open>The forward pass never takes a metron for the last one\<close>

lemma forward_step_inv:
  assumes "forward_inv n (Suc todo) st" and "scan_trimeter_2_step st m = Inr st'"
  shows "forward_inv n todo st'"
proof (cases "length (current st @ [m]) < 4")
  case True
  with assms show ?thesis
    by (auto simp: forward_inv_def scan_trimeter_2_step_def Let_def)
next
  case False
  from assms(1) have cd: "countdown st = int n - int (length (trimeter st))"
    and nl: "\<not> is_last st"
    and b: "4 * length (trimeter st) + length (current st) + Suc todo \<le> n"
    by (auto simp: forward_inv_def)
  from False b cd have ne: "countdown st \<noteq> 1" by auto
  from assms(2) False ne nl b cd show ?thesis
    by (auto simp: forward_inv_def scan_trimeter_2_step_def Let_def split: if_splits sum.splits)
qed

lemma forward_loop_inv:
  "forward_inv n (length ms) st \<Longrightarrow> scan_trimeter_2_loop st ms = Inr st' \<Longrightarrow> forward_inv n 0 st'"
proof (induction ms arbitrary: st)
  case Nil
  then show ?case by simp
next
  case (Cons m ms)
  from Cons.prems(2) obtain st1 where s: "scan_trimeter_2_step st m = Inr st1"
    and l: "scan_trimeter_2_loop st1 ms = Inr st'"
    by (auto split: sum.splits)
  from Cons.prems(1) have "forward_inv n (Suc (length ms)) st" by simp
  from forward_step_inv [OF this s] have "forward_inv n (length ms) st1" .
  from Cons.IH [OF this l] show ?case .
qed

text \<open>
  C10. For a raw meter of at least two symbols, after any number \<open>k\<close> of iterations of
  the loop of \<^verbatim>\<open>scan_trimeter_2\<close> the flag \<^verbatim>\<open>is_last\<close> is unset and \<^verbatim>\<open>countdown\<close> is not 1:
  the flag that the next iteration passes to \<^verbatim>\<open>is_iambic_metron\<close> and \<^verbatim>\<open>fill_metron\<close> is
  \<^verbatim>\<open>False\<close>, for every metron.
\<close>

theorem fallback_pass_never_final:
  assumes "2 \<le> length raw_meter"
    and "scan_trimeter_2_loop
           \<lparr>trimeter = [], current = [], is_last = False,
            countdown = int (length raw_meter)\<rparr> (take k raw_meter) = Inr st"
  shows "\<not> is_last st \<and> countdown st \<noteq> 1
         \<and> (if countdown st = 1 then True else is_last st) = False"
proof -
  let ?n = "length raw_meter"
  have "forward_inv ?n (length (take k raw_meter))
          \<lparr>trimeter = [], current = [], is_last = False, countdown = int ?n\<rparr>"
    by (simp add: forward_inv_def)
  from forward_loop_inv [OF this assms(2)] have inv: "forward_inv ?n 0 st" .
  then have "\<not> is_last st" and cd: "countdown st = int ?n - int (length (trimeter st))"
    and b: "4 * length (trimeter st) + length (current st) \<le> ?n"
    by (auto simp: forward_inv_def)
  from cd b assms(1) have "countdown st \<noteq> 1" by auto
  with \<open>\<not> is_last st\<close> show ?thesis by simp
qed

lemma forward_twelve:
  "scan_trimeter_2_loop
     \<lparr>trimeter = [], current = [], is_last = False, countdown = 12\<rparr>
     [SHORT, LONG, SHORT, LONG, SHORT, LONG, SHORT, LONG, SHORT, LONG, SHORT, LONG]
   = Inr \<lparr>trimeter = [[SHORT, LONG, SHORT, LONG], [SHORT, LONG, SHORT, LONG],
                      [SHORT, LONG, SHORT, LONG]],
          current = [], is_last = False, countdown = 9\<rparr>"
  by code_simp

theorem fallback_pass_never_final_witness:
  "2 \<le> length [SHORT, LONG, SHORT, LONG, SHORT, LONG, SHORT, LONG, SHORT, LONG, SHORT, LONG]
   \<and> scan_trimeter_2_loop
         \<lparr>trimeter = [], current = [], is_last = False, countdown = 12\<rparr>
         [SHORT, LONG, SHORT, LONG, SHORT, LONG, SHORT, LONG, SHORT, LONG, SHORT, LONG]
       = Inr \<lparr>trimeter = [[SHORT, LONG, SHORT, LONG], [SHORT, LONG, SHORT, LONG],
                          [SHORT, LONG, SHORT, LONG]],
              current = [], is_last = False, countdown = 9\<rparr>
   \<and> \<not> is_last \<lparr>trimeter = [[SHORT, LONG, SHORT, LONG], [SHORT, LONG, SHORT, LONG],
                            [SHORT, LONG, SHORT, LONG]],
                    current = [], is_last = False, countdown = 9\<rparr>
   \<and> countdown \<lparr>trimeter = [[SHORT, LONG, SHORT, LONG], [SHORT, LONG, SHORT, LONG],
                            [SHORT, LONG, SHORT, LONG]],
                    current = [], is_last = False, countdown = 9\<rparr> \<noteq> 1"
proof -
  let ?raw = "[SHORT, LONG, SHORT, LONG, SHORT, LONG, SHORT, LONG, SHORT, LONG, SHORT, LONG]"
  let ?st = "\<lparr>trimeter = [[SHORT, LONG, SHORT, LONG], [SHORT, LONG, SHORT, LONG],
                          [SHORT, LONG, SHORT, LONG]],
              current = [], is_last = False, countdown = 9\<rparr>"
  have h1: "2 \<le> length ?raw" by simp
  have h2: "scan_trimeter_2_loop
              \<lparr>trimeter = [], current = [], is_last = False,
               countdown = int (length ?raw)\<rparr> (take 12 ?raw) = Inr ?st"
    using forward_twelve by simp
  from fallback_pass_never_final [OF h1 h2] have "\<not> is_last ?st \<and> countdown ?st \<noteq> 1"
    by blast
  with h1 forward_twelve show ?thesis by blast
qed

end
